theory Spec2Isabelle
  imports Main "HOL-Library.Word" "HOL-Library.Multiset"
begin

section \<open>MTCL generic collectives: the data model of collectiveImpl.hpp\<close>

text \<open>
  Conventions of the embedding.
  \<^item> \<open>size_t\<close> is \<open>nat\<close> and \<open>ssize_t\<close> is \<open>int\<close>. The sizes are byte counts of buffers
    held in memory; in the functions modelled here no intermediate \<open>size_t\<close> value
    exceeds the size arguments of the call, so nothing wraps. The one conversion that
    loses bits at realistic values, \<open>size_t\<close> to \<open>int\<close>, is written out
    (\<open>int_of_size_t\<close>). \<open>sizeof(size_t)\<close> is 8.
  \<^item> A \<open>Handle*\<close> is the address of a live Handle object in the \<open>heap\<close> of the world.
    The tests \<open>!realHandle\<close> of the framing helper come after the pointer has been
    dereferenced, so they cannot fire on a defined execution and have no branch here.
  \<^item> A \<open>char\<close> buffer is a \<open>string\<close>; a buffer pointer that may be \<open>nullptr\<close> is a
    \<open>string option\<close>; advancing a pointer by \<open>k\<close> bytes is \<open>drop k\<close>.
  \<^item> Division by zero and \<open>std::vector::at\<close> out of range are values of \<open>fault\<close>.
  \<^item> The virtual methods \<open>probe\<close>, \<open>receive\<close> and \<open>send\<close> of a Handle belong to the
    transport, which is a parameter: a \<open>transport\<close> gives the answer to every call,
    indexed by the number of Handle calls made before it. Every call is appended to the
    \<open>trace\<close> of the world; a probe is recorded with its return value and with the
    value of \<open>size\<close> after it.
\<close>

type_synonym handle_ptr = nat

datatype errno_t =
  ENONE | EBADF | ECONNRESET | EWOULDBLOCK | EAGAIN | ENOMEM | EINVAL | EFAULT | EOTHER nat

datatype fault = DivByZero | OutOfRange | SignedOverflow

record Handle =
  probed :: "bool \<times> nat"
  closed_rd :: bool
  closed_wr :: bool

record probe_reply =
  pr_ret :: int
  pr_size :: "nat option"
  pr_errno :: "errno_t option"

record recv_reply =
  rr_ret :: int
  rr_data :: string
  rr_errno :: "errno_t option"

record send_reply =
  sr_ret :: int
  sr_errno :: "errno_t option"

record transport =
  t_probe :: "nat \<Rightarrow> handle_ptr \<Rightarrow> bool \<Rightarrow> probe_reply"
  t_receive :: "nat \<Rightarrow> handle_ptr \<Rightarrow> nat \<Rightarrow> recv_reply"
  t_send :: "nat \<Rightarrow> handle_ptr \<Rightarrow> string \<Rightarrow> send_reply"

datatype event =
  EvProbe handle_ptr bool int nat
| EvReceive handle_ptr nat
| EvSend handle_ptr string
| EvClose handle_ptr bool bool

record world =
  heap :: "handle_ptr \<Rightarrow> Handle"
  errno :: errno_t
  trace :: "event list"

definition set_errno :: "errno_t option \<Rightarrow> world \<Rightarrow> world" where
  "set_errno e w = (case e of None \<Rightarrow> w | Some v \<Rightarrow> w\<lparr>errno := v\<rparr>)"

definition set_probed :: "handle_ptr \<Rightarrow> bool \<times> nat \<Rightarrow> world \<Rightarrow> world" where
  "set_probed h p w = w\<lparr>heap := (heap w)(h := (heap w h)\<lparr>probed := p\<rparr>)\<rparr>"

subsection \<open>The Handle methods the collectives call\<close>

text \<open>
  \<open>h->probe(size, blocking)\<close>: the transport answers with the return value, with the
  value it stores in the out-parameter \<open>size\<close> (if it stores one) and with the \<open>errno\<close> it
  sets (if it sets one).
\<close>

definition Handle_probe ::
  "transport \<Rightarrow> handle_ptr \<Rightarrow> nat \<Rightarrow> bool \<Rightarrow> world \<Rightarrow> int \<times> nat \<times> world" where
  "Handle_probe T h size' blocking w =
     (let rep = t_probe T (length (trace w)) h blocking;
          size' = (case pr_size rep of None \<Rightarrow> size' | Some s \<Rightarrow> s)
      in (pr_ret rep, size',
          set_errno (pr_errno rep)
            (w\<lparr>trace := trace w @ [EvProbe h blocking (pr_ret rep) size']\<rparr>)))"

text \<open>
  \<open>h->receive(buff, n)\<close>: the transport answers with the return value and the bytes it
  stores at the front of \<open>buff\<close>, at most \<open>n\<close> of them.
\<close>

definition Handle_receive ::
  "transport \<Rightarrow> handle_ptr \<Rightarrow> string \<Rightarrow> nat \<Rightarrow> world \<Rightarrow> int \<times> string \<times> world" where
  "Handle_receive T h buff n w =
     (let rep = t_receive T (length (trace w)) h n;
          d = take n (rr_data rep)
      in (rr_ret rep,
          d @ drop (length d) buff,
          set_errno (rr_errno rep) (w\<lparr>trace := trace w @ [EvReceive h n]\<rparr>)))"

text \<open>\<open>h->send(buff, n)\<close>, where \<open>data\<close> is the \<open>n\<close> bytes at \<open>buff\<close>.\<close>

definition Handle_send ::
  "transport \<Rightarrow> handle_ptr \<Rightarrow> string \<Rightarrow> world \<Rightarrow> int \<times> world" where
  "Handle_send T h data w =
     (let rep = t_send T (length (trace w)) h data
      in (sr_ret rep,
          set_errno (sr_errno rep) (w\<lparr>trace := trace w @ [EvSend h data]\<rparr>)))"

text \<open>
  Modelled from the spec: \<open>Handle::close(close_wr, close_rd)\<close> is declared in handle.hpp,
  which is not among the sources. The spec: "half-close either direction idempotently";
  \<open>closed_rd\<close> is the "read-closed flag".
\<close>

definition Handle_close :: "handle_ptr \<Rightarrow> bool \<Rightarrow> bool \<Rightarrow> world \<Rightarrow> world" where
  "Handle_close h close_wr close_rd w =
     w\<lparr>heap := (heap w)(h := (heap w h)\<lparr>closed_wr := closed_wr (heap w h) \<or> close_wr,
                                        closed_rd := closed_rd (heap w h) \<or> close_rd\<rparr>),
       trace := trace w @ [EvClose h close_wr close_rd]\<rparr>"

subsection \<open>The framing helper of CollectiveImpl\<close>

text \<open>\<open>CollectiveImpl::probeHandle(realHandle, size, blocking)\<close>: the return value, the
  out-parameter \<open>size\<close> and the world after the call.\<close>

definition probeHandle ::
  "transport \<Rightarrow> handle_ptr \<Rightarrow> nat \<Rightarrow> bool \<Rightarrow> world \<Rightarrow> int \<times> nat \<times> world" where
  "probeHandle T realHandle size' blocking w =
     (if fst (probed (heap w realHandle)) then
        (let size' = snd (probed (heap w realHandle))
         in ((if size' \<noteq> 0 then 8 else 0), size', w))
      else if closed_rd (heap w realHandle) then (0, size', w)
      else
        (case Handle_probe T realHandle size' blocking w of (r, size', w1) \<Rightarrow>
           if r \<le> 0 then
             (if r = 0 then (0, size', Handle_close realHandle True True w1)
              else if r = - 1 then
                (if errno w1 = ECONNRESET then
                   (0, size', Handle_close realHandle True True w1)
                 else if errno w1 = EWOULDBLOCK \<or> errno w1 = EAGAIN then
                   (- 1, size', w1\<lparr>errno := EWOULDBLOCK\<rparr>)
                 else (r, size', w1))
              else (r, size', w1))
           else
             (let w2 = set_probed realHandle (True, size') w1
              in if size' = 0 then (0, size', Handle_close realHandle False True w2)
                 else (r, size', w2))))"

text \<open>\<open>CollectiveImpl::receiveFromHandle(realHandle, buff, size)\<close>: the return value, the
  contents of \<open>buff\<close> and the world after the call. The local \<open>sz\<close> is handed to
  \<open>probeHandle\<close> uninitialised and is assigned from \<open>probed.second\<close> before it is read,
  so the value passed down does not matter.\<close>

definition receiveFromHandle ::
  "transport \<Rightarrow> handle_ptr \<Rightarrow> string \<Rightarrow> nat \<Rightarrow> world \<Rightarrow> int \<times> string \<times> world" where
  "receiveFromHandle T realHandle buff size' w =
     (let finish = (\<lambda>w1.
            let sz = snd (probed (heap w1 realHandle))
            in if sz > size' then (- 1, buff, w1\<lparr>errno := ENOMEM\<rparr>)
               else Handle_receive T realHandle buff (min sz size')
                      (set_probed realHandle (False, 0) w1))
      in if \<not> fst (probed (heap w realHandle)) then
           (case probeHandle T realHandle 0 True w of (r, sz, w1) \<Rightarrow>
              if r \<le> 0 then (r, buff, w1) else finish w1)
         else if closed_rd (heap w realHandle) then (0, buff, w)
         else finish w)"

text \<open>A caller that probes the same Handle again and again, once for each element of
  \<open>bs\<close> (the \<open>blocking\<close> flag of that call): the return value and the size of every call,
  and the world at the end.\<close>

fun probeHandle_repeat ::
  "transport \<Rightarrow> handle_ptr \<Rightarrow> bool list \<Rightarrow> world \<Rightarrow> (int \<times> nat) list \<times> world" where
  "probeHandle_repeat T h [] w = ([], w)"
| "probeHandle_repeat T h (b # bs) w =
     (case probeHandle T h 0 b w of (r, size', w1) \<Rightarrow>
        (case probeHandle_repeat T h bs w1 of (rs, w2) \<Rightarrow> ((r, size') # rs, w2)))"

subsection \<open>The collective base class and its partition sizing\<close>

record CollectiveImpl =
  participants :: "handle_ptr list"
  nparticipants :: nat
  uniqtag :: int
  rank :: int

text \<open>The strategies add the member \<open>root\<close>; FanIn adds \<open>probed_idx\<close> and FanOut
  \<open>current\<close>.\<close>

record RootedGeneric = CollectiveImpl +
  root :: bool

record FanInGeneric = RootedGeneric +
  probed_idx :: int

record FanOutGeneric = RootedGeneric +
  current :: nat

text \<open>The conversion of a \<open>size_t\<close> to \<open>int\<close> keeps the low 32 bits, read in two's
  complement.\<close>

definition int_of_size_t :: "nat \<Rightarrow> int" where
  "int_of_size_t x = sint (word_of_nat x :: 32 word)"

text \<open>\<open>CollectiveImpl::getTeamPartitionSize(buffcount)\<close>. The quotient and the remainder
  are computed in \<open>size_t\<close> and stored in \<open>int\<close> variables; \<open>partition++\<close> on \<open>INT_MAX\<close> is
  a signed overflow.\<close>

definition getTeamPartitionSize :: "'a CollectiveImpl_scheme \<Rightarrow> nat \<Rightarrow> fault + int" where
  "getTeamPartitionSize this buffcount =
     (if nparticipants this = 0 then Inl DivByZero
      else
        (let partition = int_of_size_t (buffcount div nparticipants this);
             r = int_of_size_t (buffcount mod nparticipants this)
         in if r \<noteq> 0 \<and> rank this < r then
              (if partition = 2147483647 then Inl SignedOverflow else Inr (partition + 1))
            else Inr partition))"

text \<open>The partition arithmetic in the words of the specification: \<open>count = total /
  datasize\<close>, \<open>base = (count / n) * datasize\<close>, \<open>remainder = count % n\<close>, and
  \<open>chunk(r) = base + (datasize if r < remainder else 0)\<close>; the displacement of rank \<open>r\<close>
  is the sum of the chunks of the ranks below it.\<close>

definition spec_chunk :: "nat \<Rightarrow> nat \<Rightarrow> nat \<Rightarrow> nat \<Rightarrow> nat" where
  "spec_chunk tot datasize n r =
     (let count = tot div datasize;
          base = (count div n) * datasize;
          remainder = count mod n
      in base + (if r < remainder then datasize else 0))"

definition spec_displ :: "nat \<Rightarrow> nat \<Rightarrow> nat \<Rightarrow> nat \<Rightarrow> nat" where
  "spec_displ tot datasize n r = sum_list (map (spec_chunk tot datasize n) [0..<r])"

subsection \<open>Scatter\<close>

text \<open>\<open>memcpy(dst, src, n)\<close> on buffers that hold at least \<open>n\<close> bytes each.\<close>

definition memcpy :: "string \<Rightarrow> string \<Rightarrow> nat \<Rightarrow> string" where
  "memcpy dst src n = take n src @ drop n dst"

text \<open>The loop \<open>for (i = 0; i < nparticipants - 1; i++)\<close> of the root in
  \<open>ScatterGeneric::sendrecv\<close>. \<open>sendbuff\<close> is what lies at the running pointer. The
  result is \<open>Some r\<close> when the loop body returned \<open>r\<close> from the function and \<open>None\<close>
  when the loop ran to its end.\<close>

function Scatter_send_loop ::
  "transport \<Rightarrow> handle_ptr list \<Rightarrow> nat \<Rightarrow> nat \<Rightarrow> nat \<Rightarrow> nat \<Rightarrow> nat \<Rightarrow> string \<Rightarrow> world
     \<Rightarrow> fault + (int option \<times> world)" where
  "Scatter_send_loop T parts n sendcount datasize i rcount sendbuff w =
     (if i < n - 1 then
        (let chunksize = (if rcount > 0 then sendcount + datasize else sendcount);
             rcount = (if rcount > 0 then rcount - 1 else rcount)
         in if i < length parts then
              (case Handle_send T (parts ! i) (take chunksize sendbuff) w of (r, w1) \<Rightarrow>
                 if r < 0 then Inr (Some (- 1), w1\<lparr>errno := ECONNRESET\<rparr>)
                 else Scatter_send_loop T parts n sendcount datasize (i + 1) rcount
                        (drop chunksize sendbuff) w1)
            else Inl OutOfRange)
      else Inr (None, w))"
  by pat_completeness auto
termination
  by (relation "measure (\<lambda>(T, parts, n, sendcount, datasize, i, rcount, sendbuff, w). n - 1 - i)")
     auto

declare Scatter_send_loop.simps [simp del]

text \<open>\<open>ScatterGeneric::sendrecv(sendbuff, sendsize, recvbuff, recvsize, datasize)\<close>: the
  return value, the receive buffer and the world after the call.\<close>

definition Scatter_sendrecv ::
  "transport \<Rightarrow> RootedGeneric \<Rightarrow> string option \<Rightarrow> nat \<Rightarrow> string option \<Rightarrow> nat \<Rightarrow> nat \<Rightarrow> world
     \<Rightarrow> fault + (int \<times> string option \<times> world)" where
  "Scatter_sendrecv T this sendbuff sendsize recvbuff recvsize datasize w =
     (case recvbuff of
        None \<Rightarrow> Inr (- 1, None, w\<lparr>errno := EFAULT\<rparr>)
      | Some rb \<Rightarrow>
          if root this then
            (case sendbuff of
               None \<Rightarrow> Inr (- 1, recvbuff, w\<lparr>errno := EFAULT\<rparr>)
             | Some sb \<Rightarrow>
                 if datasize = 0 then Inl DivByZero
                 else if sendsize mod datasize \<noteq> 0 then Inr (- 1, recvbuff, w\<lparr>errno := EINVAL\<rparr>)
                 else if nparticipants this = 0 then Inl DivByZero
                 else
                   (let datacount = sendsize div datasize;
                        sendcount = (datacount div nparticipants this) * datasize;
                        rcount = datacount mod nparticipants this;
                        selfsendcount = (if rcount > 0 then sendcount + datasize else sendcount);
                        rcount = (if rcount > 0 then rcount - 1 else rcount)
                    in if recvsize < selfsendcount then
                         Inr (- 1, recvbuff, w\<lparr>errno := EINVAL\<rparr>)
                       else
                         (case Scatter_send_loop T (participants this) (nparticipants this)
                                 sendcount datasize 0 rcount (drop selfsendcount sb) w of
                            Inl f \<Rightarrow> Inl f
                          | Inr (Some r, w1) \<Rightarrow> Inr (r, Some (memcpy rb sb selfsendcount), w1)
                          | Inr (None, w1) \<Rightarrow>
                              Inr (int selfsendcount, Some (memcpy rb sb selfsendcount), w1))))
          else
            (case participants this of
               [] \<Rightarrow> Inl OutOfRange
             | h # _ \<Rightarrow>
                 (case receiveFromHandle T h rb recvsize w of (res, rb', w1) \<Rightarrow>
                    Inr (res, Some rb', if res = 0 then Handle_close h True False w1 else w1))))"

subsection \<open>FanIn\<close>

text \<open>\<open>participants.erase(iter)\<close>: the element at the iterator goes and the iterator then
  designates the element that followed it.\<close>

definition erase_at :: "nat \<Rightarrow> 'a list \<Rightarrow> 'a list" where
  "erase_at i xs = take i xs @ drop (Suc i) xs"

text \<open>One pass through the body of the \<open>while\<close> loop of \<open>FanInGeneric::probe\<close>, on the
  local variables \<open>iter\<close> (as an index into \<open>participants\<close>), \<open>res\<close> and \<open>size\<close>, the
  object and the world. The flag is \<open>True\<close> when the body left the loop by \<open>break\<close>.\<close>

type_synonym FanIn_locals = "nat \<times> int \<times> nat \<times> FanInGeneric \<times> world"

definition FanIn_probe_body :: "transport \<Rightarrow> bool \<Rightarrow> FanIn_locals \<Rightarrow> bool \<times> FanIn_locals" where
  "FanIn_probe_body T blocking st =
     (case st of (iter, res, size', this, w) \<Rightarrow>
        (let h = participants this ! iter
         in case Handle_probe T h size' False w of (res, size', w) \<Rightarrow>
              (let eos = (res > 0 \<and> size' = 0);
                   this = (if eos then this\<lparr>participants := erase_at iter (participants this)\<rparr>
                           else this);
                   res = (if eos then - 1 else res);
                   w = (if eos then Handle_close h True True w else w)
               in if eos \<and> iter = length (participants this) then
                    (if blocking then (False, (0, res, size', this, w))
                     else (True, (iter, res, size', this, w)))
                  else
                    (let this = (if res > 0 then this\<lparr>probed_idx := int iter\<rparr> else this);
                         w = (if res > 0 then set_probed h (True, size') w else w);
                         iter = iter + 1
                     in if iter = length (participants this) then
                          (if blocking then (False, (0, res, size', this, w))
                           else (True, (iter, res, size', this, w)))
                        else (False, (iter, res, size', this, w))))))"

text \<open>The loop \<open>while (res == -1 && !participants.empty())\<close>. In blocking mode it runs for
  as long as every probe answers -1, so it is given fuel: \<open>None\<close> is a loop still running
  when the fuel is spent.\<close>

fun FanIn_probe_loop :: "nat \<Rightarrow> transport \<Rightarrow> bool \<Rightarrow> FanIn_locals \<Rightarrow> FanIn_locals option" where
  "FanIn_probe_loop 0 T blocking st = None"
| "FanIn_probe_loop (Suc fuel) T blocking st =
     (case st of (iter, res, size', this, w) \<Rightarrow>
        if res = - 1 \<and> participants this \<noteq> [] then
          (case FanIn_probe_body T blocking st of
             (True, st') \<Rightarrow> Some st'
           | (False, st') \<Rightarrow> FanIn_probe_loop fuel T blocking st')
        else Some st)"

text \<open>\<open>FanInGeneric::probe(size, blocking)\<close>: the return value, the out-parameter
  \<open>size\<close>, the object and the world after the call.\<close>

definition FanIn_probe ::
  "nat \<Rightarrow> transport \<Rightarrow> FanInGeneric \<Rightarrow> nat \<Rightarrow> bool \<Rightarrow> world
     \<Rightarrow> (int \<times> nat \<times> FanInGeneric \<times> world) option" where
  "FanIn_probe fuel T this size' blocking w =
     (case FanIn_probe_loop fuel T blocking (0, - 1, size', this, w) of
        None \<Rightarrow> None
      | Some (iter, res, size', this, w) \<Rightarrow>
          if participants this = [] then Some (8, 0, this, w)
          else Some (res, size', this, w))"

subsection \<open>FanOut\<close>

text \<open>\<open>FanOutGeneric::probe(size, blocking)\<close>. \<open>participants.pop_back()\<close> removes the last
  element of the vector.\<close>

definition FanOut_probe ::
  "transport \<Rightarrow> FanOutGeneric \<Rightarrow> nat \<Rightarrow> bool \<Rightarrow> world \<Rightarrow> int \<times> nat \<times> FanOutGeneric \<times> world" where
  "FanOut_probe T this size' blocking w =
     (if participants this = [] then (- 1, size', this, w\<lparr>errno := ECONNRESET\<rparr>)
      else
        (let h = participants this ! 0
         in case Handle_probe T h size' blocking w of (res, size', w) \<Rightarrow>
              (let eos = (res > 0 \<and> size' = 0);
                   this = (if eos then this\<lparr>participants := butlast (participants this)\<rparr>
                           else this);
                   w = (if eos then Handle_close h True True w else w);
                   w = (if res > 0 then set_probed h (True, size') w else w)
               in (res, size', this, w))))"

subsection \<open>AllGather and AllToAll, seen from a non-root\<close>

text \<open>\<open>AllGatherGeneric::sendrecv\<close> where \<open>root\<close> is false: the checks that come before
  the test of \<open>root\<close>, then the \<open>else\<close> branch.\<close>

definition AllGather_sendrecv_nonroot ::
  "transport \<Rightarrow> RootedGeneric \<Rightarrow> string option \<Rightarrow> nat \<Rightarrow> string option \<Rightarrow> nat \<Rightarrow> nat \<Rightarrow> world
     \<Rightarrow> fault + (int \<times> string option \<times> world)" where
  "AllGather_sendrecv_nonroot T this sendbuff sendsize recvbuff recvsize datasize w =
     (case sendbuff of
        None \<Rightarrow> Inr (- 1, recvbuff, w\<lparr>errno := EFAULT\<rparr>)
      | Some sb \<Rightarrow>
          (case recvbuff of
             None \<Rightarrow> Inr (- 1, recvbuff, w\<lparr>errno := EFAULT\<rparr>)
           | Some rb \<Rightarrow>
               if datasize = 0 then Inl DivByZero
               else if recvsize mod datasize \<noteq> 0 then Inr (- 1, recvbuff, w\<lparr>errno := EINVAL\<rparr>)
               else if nparticipants this = 0 then Inl DivByZero
               else
                 (let datacount = recvsize div datasize;
                      recvcount = (datacount div nparticipants this) * datasize;
                      rcount = datacount mod nparticipants this;
                      chunksize = (if rcount \<noteq> 0 \<and> rank this < int_of_size_t rcount
                                   then recvcount + datasize else recvcount)
                  in if chunksize > sendsize then Inr (- 1, recvbuff, w\<lparr>errno := EINVAL\<rparr>)
                     else
                       (case participants this of
                          [] \<Rightarrow> Inl OutOfRange
                        | h # _ \<Rightarrow>
                            (case Handle_send T h (take chunksize sb) w of (r, w1) \<Rightarrow>
                               if r < 0 then Inr (- 1, recvbuff, w1\<lparr>errno := ECONNRESET\<rparr>)
                               else
                                 (case receiveFromHandle T h rb recvsize w1 of (res, rb', w2) \<Rightarrow>
                                    Inr (int chunksize, Some rb',
                                         if res = 0 then Handle_close h True False w2
                                         else w2)))))))"

text \<open>\<open>AlltoallGeneric::sendrecv\<close> where \<open>root\<close> is false: the checks that come before the
  test of \<open>root\<close>, then the \<open>else\<close> branch.\<close>

definition Alltoall_sendrecv_nonroot ::
  "transport \<Rightarrow> RootedGeneric \<Rightarrow> string option \<Rightarrow> nat \<Rightarrow> string option \<Rightarrow> nat \<Rightarrow> nat \<Rightarrow> world
     \<Rightarrow> fault + (int \<times> string option \<times> world)" where
  "Alltoall_sendrecv_nonroot T this sendbuff sendsize recvbuff recvsize datasize w =
     (case sendbuff of
        None \<Rightarrow> Inr (- 1, recvbuff, w\<lparr>errno := EFAULT\<rparr>)
      | Some sb \<Rightarrow>
          (case recvbuff of
             None \<Rightarrow> Inr (- 1, recvbuff, w\<lparr>errno := EFAULT\<rparr>)
           | Some rb \<Rightarrow>
               if datasize = 0 then Inl DivByZero
               else if sendsize mod datasize \<noteq> 0 then Inr (- 1, recvbuff, w\<lparr>errno := EINVAL\<rparr>)
               else if nparticipants this = 0 then Inl DivByZero
               else
                 (let datacount = sendsize div datasize;
                      sendcount = (datacount div nparticipants this) * datasize;
                      rcount = datacount mod nparticipants this;
                      selfrecvcount =
                        (sendcount + (if rcount \<noteq> 0 \<and> rank this < int_of_size_t rcount
                                      then datasize else 0)) * nparticipants this
                  in if recvsize < selfrecvcount then
                       Inr (- 1, recvbuff, w\<lparr>errno := EINVAL\<rparr>)
                     else
                       (case participants this of
                          [] \<Rightarrow> Inl OutOfRange
                        | h # _ \<Rightarrow>
                            (case Handle_send T h (take sendsize sb) w of (r, w1) \<Rightarrow>
                               if r < 0 then Inr (- 1, recvbuff, w1\<lparr>errno := ECONNRESET\<rparr>)
                               else
                                 (case receiveFromHandle T h rb recvsize w1 of (res, rb', w2) \<Rightarrow>
                                    Inr (int selfrecvcount, Some rb',
                                         if res = 0 then Handle_close h True False w2
                                         else w2)))))))"

subsection \<open>Reading a trace: the ends of stream found by probes\<close>

text \<open>A probe found the end of stream of a peer when it returned a positive value with
  \<open>size = 0\<close>. \<open>eos_handles\<close> lists the Handles on which the probes of a trace found it,
  and \<open>eos_absorbed\<close> says that each such probe is followed at once by
  \<open>close(true, true)\<close> on the same Handle.\<close>

fun eos_handles :: "event list \<Rightarrow> handle_ptr list" where
  "eos_handles [] = []"
| "eos_handles (EvProbe h b r s # es) =
     (if 0 < r \<and> s = 0 then h # eos_handles es else eos_handles es)"
| "eos_handles (e # es) = eos_handles es"

fun eos_absorbed :: "event list \<Rightarrow> bool" where
  "eos_absorbed [] = True"
| "eos_absorbed (EvProbe h b r s # es) =
     ((0 < r \<and> s = 0 \<longrightarrow> es \<noteq> [] \<and> hd es = EvClose h True True) \<and> eos_absorbed es)"
| "eos_absorbed (e # es) = eos_absorbed es"

text \<open>\<open>probes_answered T t es\<close> says that the trace segment \<open>es\<close>, whose first event is
  the call number \<open>t\<close>, records every probe with the answer the transport gives at that
  moment: its return value, and the size it stores if it stores one.\<close>

fun probes_answered :: "transport \<Rightarrow> nat \<Rightarrow> event list \<Rightarrow> bool" where
  "probes_answered T t [] = True"
| "probes_answered T t (EvProbe h b r s # es) =
     (r = pr_ret (t_probe T t h b)
      \<and> (case pr_size (t_probe T t h b) of None \<Rightarrow> True | Some v \<Rightarrow> s = v)
      \<and> probes_answered T (Suc t) es)"
| "probes_answered T t (e # es) = probes_answered T (Suc t) es"

subsection \<open>Concrete transports and worlds for the examples\<close>

text \<open>A transport on which every probe finds a frame of 5 bytes, every receive delivers
  \<open>hello\<close> and every send delivers all its bytes.\<close>

definition ex_transport :: transport where
  "ex_transport =
     \<lparr>t_probe = (\<lambda>t h b. \<lparr>pr_ret = 8, pr_size = Some 5, pr_errno = None\<rparr>),
      t_receive = (\<lambda>t h n. \<lparr>rr_ret = int (min n 5), rr_data = ''hello'', rr_errno = None\<rparr>),
      t_send = (\<lambda>t h d. \<lparr>sr_ret = int (length d), sr_errno = None\<rparr>)\<rparr>"

text \<open>A world with an empty trace in which every Handle has the given probed state and
  read-closed flag.\<close>

definition ex_world :: "bool \<times> nat \<Rightarrow> bool \<Rightarrow> world" where
  "ex_world p rd =
     \<lparr>heap = (\<lambda>h. \<lparr>probed = p, closed_rd = rd, closed_wr = False\<rparr>),
      errno = ENONE, trace = []\<rparr>"

text \<open>A transport like \<open>ex_transport\<close>, except that every probe of Handle 10 finds the
  end of stream: a header of size 0.\<close>

definition ex_transport_eos :: transport where
  "ex_transport_eos =
     ex_transport\<lparr>t_probe := (\<lambda>t h b. \<lparr>pr_ret = 8, pr_size = Some (if h = 10 then 0 else 5),
                                          pr_errno = None\<rparr>)\<rparr>"

text \<open>A transport like \<open>ex_transport\<close>, except that every probe fails with -1 and an
  \<open>errno\<close> that is neither \<open>ECONNRESET\<close> nor \<open>EWOULDBLOCK\<close> nor \<open>EAGAIN\<close>.\<close>

definition ex_transport_err :: transport where
  "ex_transport_err =
     ex_transport\<lparr>t_probe := (\<lambda>t h b. \<lparr>pr_ret = - 1, pr_size = None,
                                          pr_errno = Some (EOTHER 5)\<rparr>)\<rparr>"

text \<open>A transport like \<open>ex_transport\<close>, except that every send fails.\<close>

definition ex_transport_sendfail :: transport where
  "ex_transport_sendfail =
     ex_transport\<lparr>t_send := (\<lambda>t h d. \<lparr>sr_ret = - 1, sr_errno = Some (EOTHER 5)\<rparr>)\<rparr>"

text \<open>The root of a group of three, with the Handles 10 and 20 to its peers, and the
  non-root of rank 1 in a group of two, with the Handle 10 to the root.\<close>

definition ex_root :: RootedGeneric where
  "ex_root = \<lparr>participants = [10, 20], nparticipants = 3, uniqtag = 0, rank = 0, root = True\<rparr>"

definition ex_nonroot :: RootedGeneric where
  "ex_nonroot = \<lparr>participants = [10], nparticipants = 2, uniqtag = 0, rank = 1, root = False\<rparr>"

definition ex_fanin :: FanInGeneric where
  "ex_fanin = \<lparr>participants = [10, 20], nparticipants = 3, uniqtag = 0, rank = 0, root = True,
               probed_idx = - 1\<rparr>"

definition ex_fanout :: FanOutGeneric where
  "ex_fanout = \<lparr>participants = [10, 20], nparticipants = 3, uniqtag = 0, rank = 0, root = True,
                current = 0\<rparr>"

text \<open>A transport like \<open>ex_transport\<close>, except that every probe finds the end of stream;
  and one on which the first two probes would block and the later ones find a frame of
  5 bytes.\<close>

definition ex_transport_closed :: transport where
  "ex_transport_closed =
     ex_transport\<lparr>t_probe := (\<lambda>t h b. \<lparr>pr_ret = 8, pr_size = Some 0, pr_errno = None\<rparr>)\<rparr>"

definition ex_transport_late :: transport where
  "ex_transport_late =
     ex_transport\<lparr>t_probe := (\<lambda>t h b. if t < 2
                                then \<lparr>pr_ret = - 1, pr_size = None, pr_errno = Some EWOULDBLOCK\<rparr>
                                else \<lparr>pr_ret = 8, pr_size = Some 5, pr_errno = None\<rparr>)\<rparr>"


section \<open>Properties\<close>

subsection \<open>The framing helper\<close>


lemma probeHandle_pending:
  "probed (heap w h) = (True, s) \<Longrightarrow>
   probeHandle T h size' blocking w = ((if s \<noteq> 0 then 8 else 0), s, w)"
  by (simp add: probeHandle_def)

lemma probeHandle_repeat_pending:
  "probed (heap w h) = (True, s) \<Longrightarrow>
   probeHandle_repeat T h bs w = (replicate (length bs) ((if s \<noteq> 0 then 8 else 0), s), w)"
  by (induction bs) (simp_all add: probeHandle_pending)

lemma receive_pending:
  "probed (heap w h) = (True, s) \<Longrightarrow> \<not> closed_rd (heap w h) \<Longrightarrow> s \<le> cap \<Longrightarrow>
   receiveFromHandle T h buff cap w = Handle_receive T h buff s (set_probed h (False, 0) w)"
  by (simp add: receiveFromHandle_def set_probed_def)

lemma Handle_receive_obs:
  "Handle_receive T h buff n w = (r, b, w') \<Longrightarrow>
   heap w' = heap w \<and> trace w' = trace w @ [EvReceive h n] \<and> r = rr_ret (t_receive T (length (trace w)) h n)"
  by (auto simp: Handle_receive_def set_errno_def Let_def split: option.splits)

lemma Handle_probe_obs:
  "Handle_probe T h sz b w = (r, sz', w') \<Longrightarrow>
   heap w' = heap w \<and> trace w' = trace w @ [EvProbe h b r sz']
   \<and> r = pr_ret (t_probe T (length (trace w)) h b)"
  by (auto simp: Handle_probe_def set_errno_def Let_def split: option.splits)

lemma probeHandle_no_receive:
  "probeHandle T h sz b w = (r, sz', w') \<Longrightarrow>
   (\<exists>es. trace w' = trace w @ es \<and> (\<forall>n. EvReceive h n \<notin> set es))"
  by (auto simp: probeHandle_def Let_def Handle_close_def set_probed_def
        split: if_splits prod.splits dest!: Handle_probe_obs)

lemma probeHandle_positive:
  "probeHandle T h sz b w = (r, sz', w') \<Longrightarrow> 0 < r \<Longrightarrow> 
   \<not> closed_rd (heap w' h) \<or> fst (probed (heap w h))"
  by (auto simp: probeHandle_def Let_def Handle_close_def set_probed_def
        split: if_splits prod.splits dest!: Handle_probe_obs)


lemma finish_obs:
  assumes "(let sz = snd (probed (heap w1 h))
            in if sz > cap then (- 1, buff, w1\<lparr>errno := ENOMEM\<rparr>)
               else Handle_receive T h buff (min sz cap) (set_probed h (False, 0) w1)) = (r, buff', w')"
  shows "(trace w' = trace w1 \<and> heap w' = heap w1 \<and> r = - 1 \<and> cap < snd (probed (heap w1 h)))
       \<or> (trace w' = trace w1 @ [EvReceive h (snd (probed (heap w1 h)))]
           \<and> probed (heap w' h) = (False, 0)
           \<and> closed_rd (heap w' h) = closed_rd (heap w1 h)
           \<and> snd (probed (heap w1 h)) \<le> cap)"
  using assms
  by (auto simp: Let_def set_probed_def min_def split: if_splits dest!: Handle_receive_obs)

lemma receive_clears:
  assumes R: "receiveFromHandle T h buff cap w = (r, buff', w')"
    and E: "EvReceive h n \<in> set (drop (length (trace w)) (trace w'))"
  shows "probed (heap w' h) = (False, 0) \<and> \<not> closed_rd (heap w' h)"
proof (cases "fst (probed (heap w h))")
  case True
  show ?thesis
  proof (cases "closed_rd (heap w h)")
    case c: True
    with True R have "w' = w" by (simp add: receiveFromHandle_def)
    with E show ?thesis by simp
  next
    case c: False
    with True R have "(let sz = snd (probed (heap w h))
            in if sz > cap then (- 1, buff, w\<lparr>errno := ENOMEM\<rparr>)
               else Handle_receive T h buff (min sz cap) (set_probed h (False, 0) w)) = (r, buff', w')"
      by (simp add: receiveFromHandle_def)
    from finish_obs [OF this] E c show ?thesis by auto
  qed
next
  case False
  obtain r0 sz0 w1 where P: "probeHandle T h 0 True w = (r0, sz0, w1)"
    by (cases "probeHandle T h 0 True w") auto
  from probeHandle_no_receive [OF P] obtain es where
    es: "trace w1 = trace w @ es" "\<forall>n. EvReceive h n \<notin> set es" by blast
  show ?thesis
  proof (cases "r0 \<le> 0")
    case r: True
    with False R P have "w' = w1" by (simp add: receiveFromHandle_def)
    with E es show ?thesis by simp
  next
    case r: False
    with False R P have "(let sz = snd (probed (heap w1 h))
            in if sz > cap then (- 1, buff, w1\<lparr>errno := ENOMEM\<rparr>)
               else Handle_receive T h buff (min sz cap) (set_probed h (False, 0) w1)) = (r, buff', w')"
      by (simp add: receiveFromHandle_def)
    from finish_obs [OF this] consider
      (a) "trace w' = trace w1"
      | (b) "trace w' = trace w1 @ [EvReceive h (snd (probed (heap w1 h)))]"
          "probed (heap w' h) = (False, 0)" "closed_rd (heap w' h) = closed_rd (heap w1 h)"
      by blast
    then show ?thesis
    proof cases
      case a
      with E es show ?thesis by simp
    next
      case b
      from probeHandle_positive [OF P] r False have "\<not> closed_rd (heap w1 h)" by simp
      with b show ?thesis by simp
    qed
  qed
qed

lemma receive_unprobed_starts_with_probe:
  assumes "probed (heap w h) = (False, s)" "\<not> closed_rd (heap w h)"
  shows "\<exists>r0 s0 rest. trace (snd (snd (receiveFromHandle T h buff cap w)))
           = trace w @ EvProbe h True r0 s0 # rest"
proof -
  obtain r0 sz0 w0 where H: "Handle_probe T h 0 True w = (r0, sz0, w0)"
    by (cases "Handle_probe T h 0 True w") auto
  note o = Handle_probe_obs [OF H]
  show ?thesis using assms H o
    by (auto simp: receiveFromHandle_def probeHandle_def Let_def Handle_close_def set_probed_def
        Handle_receive_def set_errno_def split: option.splits)
qed


text \<open>
  Claim C5. The probed-state discipline of the framing helper. For a Handle whose probed
  state is \<open>(true, s)\<close>, any number of further \<open>probeHandle\<close> calls deliver the size \<open>s\<close>
  (with the return value \<open>sizeof(size_t)\<close>, or 0 when \<open>s\<close> is 0) and leave the whole world
  as it was: no call reaches the transport and the probed state stays. If the Handle is
  not read-closed and \<open>s\<close> fits the capacity, \<open>receiveFromHandle\<close> goes on to receive \<open>s\<close>
  bytes. Every \<open>receiveFromHandle\<close> that goes on to receive leaves the probed state at
  \<open>(false, 0)\<close>, and the next \<open>receiveFromHandle\<close> on that Handle starts with a new probe.
\<close>

theorem framing_probed_state_discipline:
  "(probed (heap w h) = (True, s) \<longrightarrow>
      probeHandle_repeat T h bs w = (replicate (length bs) ((if s \<noteq> 0 then 8 else 0), s), w))
   \<and> (probed (heap w h) = (True, s) \<and> \<not> closed_rd (heap w h) \<and> s \<le> cap \<longrightarrow>
        trace (snd (snd (receiveFromHandle T h buff cap w))) = trace w @ [EvReceive h s])
   \<and> (receiveFromHandle T h buff cap w = (r, buff', w')
        \<and> EvReceive h n \<in> set (drop (length (trace w)) (trace w')) \<longrightarrow>
        probed (heap w' h) = (False, 0)
        \<and> (\<exists>r0 s0 rest. trace (snd (snd (receiveFromHandle T h buff2 cap2 w')))
              = trace w' @ EvProbe h True r0 s0 # rest))"
proof (intro conjI impI)
  assume "probed (heap w h) = (True, s)"
  then show "probeHandle_repeat T h bs w
             = (replicate (length bs) ((if s \<noteq> 0 then 8 else 0), s), w)"
    by (rule probeHandle_repeat_pending)
next
  assume a: "probed (heap w h) = (True, s) \<and> \<not> closed_rd (heap w h) \<and> s \<le> cap"
  obtain r1 b1 w1 where R: "receiveFromHandle T h buff cap w = (r1, b1, w1)"
    by (cases "receiveFromHandle T h buff cap w") auto
  with a have "Handle_receive T h buff s (set_probed h (False, 0) w) = (r1, b1, w1)"
    by (simp add: receive_pending)
  from Handle_receive_obs [OF this] R
  show "trace (snd (snd (receiveFromHandle T h buff cap w))) = trace w @ [EvReceive h s]"
    by (simp add: set_probed_def)
next
  assume a: "receiveFromHandle T h buff cap w = (r, buff', w')
        \<and> EvReceive h n \<in> set (drop (length (trace w)) (trace w'))"
  then have c: "probed (heap w' h) = (False, 0) \<and> \<not> closed_rd (heap w' h)"
    using receive_clears by blast
  then show "probed (heap w' h) = (False, 0)" ..
  from c show "\<exists>r0 s0 rest. trace (snd (snd (receiveFromHandle T h buff2 cap2 w')))
              = trace w' @ EvProbe h True r0 s0 # rest"
    using receive_unprobed_starts_with_probe by blast
qed


text \<open>The theorem at a pending frame of 5 bytes, probed three more times and then
  received into a buffer of 8 bytes.\<close>

theorem framing_probed_state_discipline_witness:
  "probed (heap (ex_world (True, 5) False) 10) = (True, 5)
   \<and> \<not> closed_rd (heap (ex_world (True, 5) False) 10) \<and> (5::nat) \<le> 8
   \<and> probeHandle_repeat ex_transport 10 [True, False, True] (ex_world (True, 5) False)
       = ([(8, 5), (8, 5), (8, 5)], ex_world (True, 5) False)
   \<and> trace (snd (snd (receiveFromHandle ex_transport 10 ''........'' 8 (ex_world (True, 5) False))))
       = [EvReceive 10 5]
   \<and> probed (heap (snd (snd (receiveFromHandle ex_transport 10 ''........'' 8
                               (ex_world (True, 5) False)))) 10) = (False, 0)
   \<and> (\<exists>r0 s0 rest. trace (snd (snd (receiveFromHandle ex_transport 10 ''........'' 8
          (snd (snd (receiveFromHandle ex_transport 10 ''........'' 8 (ex_world (True, 5) False)))))))
        = [EvReceive 10 5, EvProbe 10 True r0 s0] @ rest)"
proof -
  let ?w = "ex_world (True, 5) False"
  let ?res = "receiveFromHandle ex_transport 10 ''........'' 8 ?w"
  have h1: "probed (heap ?w 10) = (True, 5)" and h2: "\<not> closed_rd (heap ?w 10)"
    and h3: "trace ?w = []"
    by (simp_all add: ex_world_def)
  note inst = framing_probed_state_discipline [of ?w 10 5 ex_transport "[True, False, True]" 8
      "''........''" "fst ?res" "fst (snd ?res)" "snd (snd ?res)" 5 "''........''" 8]
  from inst h1 have c1: "probeHandle_repeat ex_transport 10 [True, False, True] ?w
       = ([(8, 5), (8, 5), (8, 5)], ?w)" by simp
  from inst h1 h2 h3 have c2: "trace (snd (snd ?res)) = [EvReceive 10 5]" by simp
  with inst h3 have c3: "probed (heap (snd (snd ?res)) 10) = (False, 0)
        \<and> (\<exists>r0 s0 rest. trace (snd (snd (receiveFromHandle ex_transport 10 ''........'' 8 (snd (snd ?res)))))
              = [EvReceive 10 5, EvProbe 10 True r0 s0] @ rest)"
    by simp
  from h1 h2 c1 c2 c3 show ?thesis by simp
qed


subsection \<open>Buffer too small\<close>

lemma receive_too_small_pending:
  "probed (heap w h) = (True, s) \<Longrightarrow> \<not> closed_rd (heap w h) \<Longrightarrow> cap < s \<Longrightarrow>
   receiveFromHandle T h buff cap w = (- 1, buff, w\<lparr>errno := ENOMEM\<rparr>)"
  by (simp add: receiveFromHandle_def)

lemma receive_too_small_fresh:
  assumes "\<not> fst (probed (heap w h))" "\<not> closed_rd (heap w h)" "cap < s"
    and "0 < pr_ret (t_probe T (length (trace w)) h True)"
    and "pr_size (t_probe T (length (trace w)) h True) = Some s"
  shows "receiveFromHandle T h buff cap w
     = (- 1, buff, \<lparr>heap = (heap w)(h := (heap w h)\<lparr>probed := (True, s)\<rparr>), errno = ENOMEM,
                     trace = trace w @ [EvProbe h True
                                          (pr_ret (t_probe T (length (trace w)) h True)) s]\<rparr>)"
  using assms
  by (auto simp: receiveFromHandle_def probeHandle_def Handle_probe_def Let_def set_probed_def
      set_errno_def split: option.splits)

lemma receive_retry:
  assumes "probed (heap w h) = (True, s)" "\<not> closed_rd (heap w h)" "s \<le> cap"
  shows "fst (receiveFromHandle T h buff cap w) = rr_ret (t_receive T (length (trace w)) h s)
       \<and> trace (snd (snd (receiveFromHandle T h buff cap w))) = trace w @ [EvReceive h s]
       \<and> probed (heap (snd (snd (receiveFromHandle T h buff cap w))) h) = (False, 0)"
  using assms
  by (simp add: receive_pending Handle_receive_def set_probed_def set_errno_def Let_def
      split: option.splits)

text \<open>
  Claim C6, as amended. On a Handle that is not read-closed and whose probed size \<open>s\<close>
  exceeds the capacity (the frame being pending already, or probed by this very call),
  \<open>receiveFromHandle\<close> returns -1 with \<open>ENOMEM\<close>, leaves the buffer alone, does not call
  the Handle's receive and leaves the probed state at \<open>(true, s)\<close>; a pending frame leaves
  the Handles and the trace untouched. A retry with a capacity of at least \<open>s\<close> then
  receives \<open>s\<close> bytes and clears the probed state.
\<close>

theorem receiveFromHandle_buffer_too_small:
  assumes open_rd: "\<not> closed_rd (heap w h)"
    and small: "cap < s"
    and frame: "probed (heap w h) = (True, s)
       \<or> (\<not> fst (probed (heap w h))
           \<and> 0 < pr_ret (t_probe T (length (trace w)) h True)
           \<and> pr_size (t_probe T (length (trace w)) h True) = Some s)"
    and res: "receiveFromHandle T h buff cap w = (r, buff', w')"
  shows "r = - 1 \<and> buff' = buff \<and> errno w' = ENOMEM
       \<and> (\<forall>n. EvReceive h n \<notin> set (drop (length (trace w)) (trace w')))
       \<and> (fst (probed (heap w h)) \<longrightarrow> heap w' = heap w \<and> trace w' = trace w)
       \<and> probed (heap w' h) = (True, s)
       \<and> (s \<le> cap' \<longrightarrow>
            fst (receiveFromHandle T h buff2 cap' w') = rr_ret (t_receive T (length (trace w')) h s)
          \<and> trace (snd (snd (receiveFromHandle T h buff2 cap' w'))) = trace w' @ [EvReceive h s]
          \<and> probed (heap (snd (snd (receiveFromHandle T h buff2 cap' w'))) h) = (False, 0))"
proof -
  from frame show ?thesis
  proof
    assume p: "probed (heap w h) = (True, s)"
    from receive_too_small_pending [OF p open_rd small] res
    have w': "w' = w\<lparr>errno := ENOMEM\<rparr>" and r: "r = - 1" "buff' = buff" by simp_all
    have "probed (heap w' h) = (True, s)" "\<not> closed_rd (heap w' h)"
      using p open_rd w' by simp_all
    from receive_retry [OF this] w' r p show ?thesis by simp
  next
    assume f: "\<not> fst (probed (heap w h))
           \<and> 0 < pr_ret (t_probe T (length (trace w)) h True)
           \<and> pr_size (t_probe T (length (trace w)) h True) = Some s"
    with receive_too_small_fresh [OF _ open_rd small, of T buff] res
    have w': "w' = \<lparr>heap = (heap w)(h := (heap w h)\<lparr>probed := (True, s)\<rparr>), errno = ENOMEM,
                     trace = trace w @ [EvProbe h True
                                          (pr_ret (t_probe T (length (trace w)) h True)) s]\<rparr>"
      and r: "r = - 1" "buff' = buff" by simp_all
    have "probed (heap w' h) = (True, s)" "\<not> closed_rd (heap w' h)"
      using open_rd w' by simp_all
    from receive_retry [OF this] w' r f show ?thesis by simp
  qed
qed

text \<open>The theorem at a pending frame of 5 bytes and a capacity of 3, then 8.\<close>

theorem receiveFromHandle_buffer_too_small_witness:
  "\<not> closed_rd (heap (ex_world (True, 5) False) 10) \<and> (3::nat) < 5
   \<and> probed (heap (ex_world (True, 5) False) 10) = (True, 5)
   \<and> receiveFromHandle ex_transport 10 ''...'' 3 (ex_world (True, 5) False)
       = (- 1, ''...'', (ex_world (True, 5) False)\<lparr>errno := ENOMEM\<rparr>)
   \<and> (5::nat) \<le> 8
   \<and> fst (receiveFromHandle ex_transport 10 ''........'' 8
            ((ex_world (True, 5) False)\<lparr>errno := ENOMEM\<rparr>)) = 5
   \<and> trace (snd (snd (receiveFromHandle ex_transport 10 ''........'' 8
            ((ex_world (True, 5) False)\<lparr>errno := ENOMEM\<rparr>)))) = [EvReceive 10 5]"
proof -
  let ?w = "ex_world (True, 5) False"
  have h1: "\<not> closed_rd (heap ?w 10)" and h2: "probed (heap ?w 10) = (True, 5)"
    and h3: "trace ?w = []"
    by (simp_all add: ex_world_def)
  have res: "receiveFromHandle ex_transport 10 ''...'' 3 ?w = (- 1, ''...'', ?w\<lparr>errno := ENOMEM\<rparr>)"
    by (simp add: receiveFromHandle_def ex_world_def)
  have t: "rr_ret (t_receive ex_transport 0 10 5) = 5" by (simp add: ex_transport_def)
  from receiveFromHandle_buffer_too_small [OF h1 _ _ res, of 5 8 "''........''"] h2 h3 t
  have "fst (receiveFromHandle ex_transport 10 ''........'' 8 (?w\<lparr>errno := ENOMEM\<rparr>)) = 5
      \<and> trace (snd (snd (receiveFromHandle ex_transport 10 ''........'' 8 (?w\<lparr>errno := ENOMEM\<rparr>))))
        = [EvReceive 10 5]" by simp
  with h1 h2 res show ?thesis by simp
qed

text \<open>
  Claim C6 as stated fails on a read-closed Handle: with a pending frame of 5 bytes and a
  capacity of 3 the call returns 0, the end of stream, and \<open>errno\<close> is not set.
\<close>

theorem receiveFromHandle_buffer_too_small_counterexample:
  "probed (heap (ex_world (True, 5) True) 10) = (True, 5) \<and> (3::nat) < 5
   \<and> receiveFromHandle ex_transport 10 ''...'' 3 (ex_world (True, 5) True)
       = (0, ''...'', ex_world (True, 5) True)
   \<and> fst (receiveFromHandle ex_transport 10 ''...'' 3 (ex_world (True, 5) True)) \<noteq> - 1
   \<and> errno (snd (snd (receiveFromHandle ex_transport 10 ''...'' 3 (ex_world (True, 5) True))))
       \<noteq> ENOMEM"
  by (simp add: receiveFromHandle_def ex_world_def)


subsection \<open>FanOut and FanIn on an exhausted group\<close>

text \<open>
  Claim C10. A FanOut probe on an empty participants list returns -1 with \<open>ECONNRESET\<close>
  and leaves \<open>size\<close>, the object, the Handles and the trace as they were, so nothing is
  probed; a FanIn probe on an empty participants list returns the group end of stream
  instead: \<open>size = 0\<close> with the positive result \<open>sizeof(size_t)\<close>.
\<close>

theorem exhausted_group_FanOut_vs_FanIn:
  "(participants fo = [] \<longrightarrow>
      FanOut_probe T fo size' blocking w = (- 1, size', fo, w\<lparr>errno := ECONNRESET\<rparr>)
      \<and> trace (snd (snd (snd (FanOut_probe T fo size' blocking w)))) = trace w)
   \<and> (participants fi = [] \<longrightarrow>
      FanIn_probe (Suc fuel) T fi size' blocking w = Some (8, 0, fi, w))"
  by (simp add: FanOut_probe_def FanIn_probe_def)

text \<open>The theorem at the two example objects with their participants removed.\<close>

theorem exhausted_group_FanOut_vs_FanIn_witness:
  "participants (ex_fanout\<lparr>participants := []\<rparr>) = []
   \<and> FanOut_probe ex_transport (ex_fanout\<lparr>participants := []\<rparr>) 7 True (ex_world (False, 0) False)
       = (- 1, 7, ex_fanout\<lparr>participants := []\<rparr>, (ex_world (False, 0) False)\<lparr>errno := ECONNRESET\<rparr>)
   \<and> participants (ex_fanin\<lparr>participants := []\<rparr>) = []
   \<and> FanIn_probe 1 ex_transport (ex_fanin\<lparr>participants := []\<rparr>) 7 True (ex_world (False, 0) False)
       = Some (8, 0, ex_fanin\<lparr>participants := []\<rparr>, ex_world (False, 0) False)"
  using exhausted_group_FanOut_vs_FanIn [of "ex_fanout\<lparr>participants := []\<rparr>" ex_transport 7 True
      "ex_world (False, 0) False" "ex_fanin\<lparr>participants := []\<rparr>" 0]
  by simp

subsection \<open>FanOut: the end of stream of the probed Handle\<close>

text \<open>When the probe of \<open>participants[0]\<close> finds the end of stream, that Handle is closed
  and the last Handle of the list is removed.\<close>

lemma FanOut_probe_eos:
  assumes "participants this \<noteq> []"
    and "0 < pr_ret (t_probe T (length (trace w)) (participants this ! 0) blocking)"
    and "pr_size (t_probe T (length (trace w)) (participants this ! 0) blocking) = Some 0"
    and "FanOut_probe T this size' blocking w = (res, size'', this', w')"
  shows "participants this' = butlast (participants this)
       \<and> trace w' = trace w @ [EvProbe (participants this ! 0) blocking res 0,
                                EvClose (participants this ! 0) True True]"
  using assms
  by (auto simp: FanOut_probe_def Handle_probe_def Handle_close_def set_probed_def set_errno_def
      Let_def split: option.splits)

text \<open>
  Claim C4 fails on the code. With the participants 10 and 20 and the end of stream on
  Handle 10, the probe closes Handle 10 and removes Handle 20: the closed Handle stays at
  the front of the list and the open Handle 20 is gone from it.
\<close>

theorem FanOut_probe_eos_removes_last:
  "participants ex_fanout = [10, 20]
   \<and> (case FanOut_probe ex_transport_eos ex_fanout 0 True (ex_world (False, 0) False) of
        (res, size', this, w) \<Rightarrow>
          res = 8 \<and> size' = 0
          \<and> trace w = [EvProbe 10 True 8 0, EvClose 10 True True]
          \<and> participants this = [10]
          \<and> closed_rd (heap w 10) \<and> \<not> closed_rd (heap w 20))"
  by (simp add: FanOut_probe_def Handle_probe_def Handle_close_def set_probed_def set_errno_def
      Let_def ex_fanout_def ex_transport_eos_def ex_transport_def ex_world_def)

subsection \<open>AllGather and AllToAll: a failed receive at a non-root\<close>

text \<open>
  Claim C2 fails on the code. The non-root has sent its share and the probe inside
  \<open>receiveFromHandle\<close> fails with -1 and an \<open>errno\<close> that is not would-block, so
  \<open>receiveFromHandle\<close> returns -1; \<open>sendrecv\<close> compares that result with 0 only and
  returns the byte count: 2 for AllGather and 4 for AllToAll.
\<close>

theorem nonroot_receive_failure_ignored:
  "(case AllGather_sendrecv_nonroot ex_transport_err ex_nonroot (Some ''ab'') 2 (Some ''....'') 4 1
           (ex_world (False, 0) False) of
      Inr (r, b, w) \<Rightarrow>
        r = 2 \<and> trace w = [EvSend 10 ''ab'', EvProbe 10 True (- 1) 0] \<and> errno w = EOTHER 5
    | Inl f \<Rightarrow> False)
   \<and> (case Alltoall_sendrecv_nonroot ex_transport_err ex_nonroot (Some ''abcd'') 4 (Some ''....'') 4 1
           (ex_world (False, 0) False) of
      Inr (r, b, w) \<Rightarrow>
        r = 4 \<and> trace w = [EvSend 10 ''abcd'', EvProbe 10 True (- 1) 0] \<and> errno w = EOTHER 5
    | Inl f \<Rightarrow> False)
   \<and> fst (receiveFromHandle ex_transport_err 10 ''....'' 4
            ((ex_world (False, 0) False)\<lparr>trace := [EvSend 10 ''ab'']\<rparr>)) = - 1"
  by (simp add: AllGather_sendrecv_nonroot_def Alltoall_sendrecv_nonroot_def receiveFromHandle_def
      probeHandle_def Handle_probe_def Handle_send_def Handle_close_def set_probed_def
      set_errno_def Let_def int_of_size_t_def
      ex_nonroot_def ex_transport_err_def ex_transport_def ex_world_def)



text \<open>In both strategies a non-root returns -1 only from the checks and from a failed
  send; whatever comes after the send, the result is a byte count.\<close>

lemma nonroot_result_shape:
  "AllGather_sendrecv_nonroot T this sb ss rb rs ds w = Inr (r, b, w') \<Longrightarrow>
     (r = - 1 \<and> length (trace w') \<le> Suc (length (trace w))) \<or> 0 \<le> r"
  "Alltoall_sendrecv_nonroot T this sb ss rb rs ds w = Inr (r, b, w') \<Longrightarrow>
     (r = - 1 \<and> length (trace w') \<le> Suc (length (trace w))) \<or> 0 \<le> r"
  by (auto simp: AllGather_sendrecv_nonroot_def Alltoall_sendrecv_nonroot_def Handle_send_def
      set_errno_def Let_def simp del: of_nat_add of_nat_mult
      split: option.splits if_splits list.splits prod.splits)

subsection \<open>Scatter: the receive buffer of the root is too small\<close>

text \<open>
  Claim C8, as amended. When \<open>recvsize\<close> is below \<open>chunk(0)\<close>, the root's Scatter
  \<open>sendrecv\<close> returns -1 and changes nothing but \<open>errno\<close>: the trace, the Handles and the
  receive buffer are as before. The error is \<open>EINVAL\<close> when both buffers are non-null and
  \<open>EFAULT\<close> when one of them is null.
\<close>

theorem Scatter_root_recv_too_small:
  assumes "root this" and "0 < datasize" and "0 < nparticipants this"
    and "recvsize < spec_chunk sendsize datasize (nparticipants this) 0"
  shows "Scatter_sendrecv T this sendbuff sendsize recvbuff recvsize datasize w
         = Inr (- 1, recvbuff,
                w\<lparr>errno := (if sendbuff = None \<or> recvbuff = None then EFAULT else EINVAL)\<rparr>)"
  using assms
  by (auto simp: Scatter_sendrecv_def spec_chunk_def Let_def split: option.splits)

text \<open>The theorem at scenario S6: seven bytes for a group of three and room for two.\<close>

theorem Scatter_root_recv_too_small_witness:
  "root ex_root \<and> (0::nat) < 1 \<and> 0 < nparticipants ex_root
   \<and> 2 < spec_chunk 7 1 (nparticipants ex_root) 0
   \<and> Scatter_sendrecv ex_transport ex_root (Some ''abcdefg'') 7 (Some ''..'') 2 1
        (ex_world (False, 0) False)
      = Inr (- 1, Some ''..'', (ex_world (False, 0) False)\<lparr>errno := EINVAL\<rparr>)"
  using Scatter_root_recv_too_small [of ex_root 1 2 7 ex_transport "Some ''abcdefg''" "Some ''..''"
      "ex_world (False, 0) False"]
  by (simp add: ex_root_def spec_chunk_def)

text \<open>
  Claim C8 as stated fails when \<open>sendbuff\<close> is null: the null test comes first and the
  error is \<open>EFAULT\<close>, not \<open>EINVAL\<close>.
\<close>

theorem Scatter_root_recv_too_small_counterexample:
  "root ex_root \<and> 2 < spec_chunk 7 1 (nparticipants ex_root) 0
   \<and> Scatter_sendrecv ex_transport ex_root None 7 (Some ''..'') 2 1 (ex_world (False, 0) False)
      = Inr (- 1, Some ''..'', (ex_world (False, 0) False)\<lparr>errno := EFAULT\<rparr>)
   \<and> errno ((ex_world (False, 0) False)\<lparr>errno := EFAULT\<rparr>) \<noteq> EINVAL"
  by (simp add: Scatter_sendrecv_def ex_root_def spec_chunk_def)



subsection \<open>Partition sizing at element granularity\<close>

text \<open>Below \<open>2^31\<close> the conversion to \<open>int\<close> keeps the value.\<close>

lemma int_of_size_t_small: "x < 2 ^ 31 \<Longrightarrow> int_of_size_t x = int x"
proof -
  assume a: "x < 2 ^ 31"
  then have b: "int x < 2 ^ 31" by simp
  have "sint (word_of_nat x :: 32 word) = signed_take_bit 31 (int x)"
    by (simp add: signed_of_nat) 
  also have "\<dots> = int x"
    using b by (intro signed_take_bit_int_eq_self) simp_all
  finally show ?thesis by (simp add: int_of_size_t_def)
qed

lemma sum_list_indicator:
  "sum_list (map (\<lambda>r. if r < m then (1::nat) else 0) [0..<k]) = min k m"
  by (induction k) auto

lemma sum_list_const_plus:
  "sum_list (map (\<lambda>r. (q::nat) + f r) [0..<k]) = k * q + sum_list (map f [0..<k])"
  by (induction k) auto

lemma getTeamPartitionSize_nat:
  assumes n: "0 < nparticipants this" "nparticipants this \<le> 2 ^ 31"
    and r: "0 \<le> rank this" "nat (rank this) < nparticipants this"
    and q: "buffcount div nparticipants this < 2 ^ 31 - 1"
  shows "getTeamPartitionSize this buffcount
         = Inr (int (buffcount div nparticipants this
                     + (if nat (rank this) < buffcount mod nparticipants this then 1 else 0)))"
proof -
  have m: "buffcount mod nparticipants this < 2 ^ 31"
    using n by (meson mod_less_divisor less_le_trans)
  have q': "buffcount div nparticipants this < 2 ^ 31" using q by simp
  have ne: "int (buffcount div nparticipants this) \<noteq> 2147483647" using q by simp
  have lt: "rank this < int (buffcount mod nparticipants this)
            \<longleftrightarrow> nat (rank this) < buffcount mod nparticipants this"
    using r by linarith
  show ?thesis
    using n ne lt
    by (auto simp: getTeamPartitionSize_def Let_def int_of_size_t_small [OF m]
        int_of_size_t_small [OF q'])
qed


lemma sum_list_int: "sum_list (map (\<lambda>x. int (g x)) xs) = int (sum_list (map g xs))"
  by (induction xs) auto

lemma partition_sum:
  assumes "0 < n"
  shows "sum_list (map (\<lambda>r. b div n + (if r < b mod n then 1 else 0)) [0..<n]) = (b::nat)"
proof -
  have "sum_list (map (\<lambda>r. b div n + (if r < b mod n then 1 else 0)) [0..<n])
        = n * (b div n) + min n (b mod n)"
    by (simp only: sum_list_const_plus sum_list_indicator)
  also have "min n (b mod n) = b mod n"
  proof -
    have "b mod n < n" using assms by simp
    then show ?thesis by simp
  qed
  finally show ?thesis by simp
qed

text \<open>
  Claim C7, as amended. For a group of at most \<open>2^31\<close> participants and a \<open>buffcount\<close>
  whose quotient by \<open>nparticipants\<close> is below \<open>2^31 - 1\<close>, \<open>getTeamPartitionSize\<close> at a
  rank in \<open>[0, nparticipants)\<close> is the quotient plus one when the rank is below the
  remainder and plus zero otherwise, which is the chunk formula at \<open>datasize = 1\<close>; the
  partitions of all ranks sum to \<open>buffcount\<close>.
\<close>

theorem getTeamPartitionSize_chunk:
  assumes n: "0 < nparticipants this" "nparticipants this \<le> 2 ^ 31"
    and q: "buffcount div nparticipants this < 2 ^ 31 - 1"
  shows "(0 \<le> rank this \<and> nat (rank this) < nparticipants this \<longrightarrow>
            getTeamPartitionSize this buffcount
            = Inr (int (buffcount div nparticipants this
                        + (if nat (rank this) < buffcount mod nparticipants this then 1 else 0)))
          \<and> getTeamPartitionSize this buffcount
            = Inr (int (spec_chunk buffcount 1 (nparticipants this) (nat (rank this)))))
       \<and> sum_list (map (\<lambda>r. case getTeamPartitionSize (this\<lparr>rank := int r\<rparr>) buffcount of
                               Inr p \<Rightarrow> p | Inl f \<Rightarrow> 0) [0..<nparticipants this])
          = int buffcount"
proof (intro conjI impI)
  assume r: "0 \<le> rank this \<and> nat (rank this) < nparticipants this"
  with getTeamPartitionSize_nat [OF n _ _ q]
  show g: "getTeamPartitionSize this buffcount
            = Inr (int (buffcount div nparticipants this
                        + (if nat (rank this) < buffcount mod nparticipants this then 1 else 0)))"
    by simp
  show "getTeamPartitionSize this buffcount
            = Inr (int (spec_chunk buffcount 1 (nparticipants this) (nat (rank this))))"
    by (simp only: g) (simp add: spec_chunk_def)
next
  let ?n = "nparticipants this"
  have "map (\<lambda>r. case getTeamPartitionSize (this\<lparr>rank := int r\<rparr>) buffcount of
                               Inr p \<Rightarrow> p | Inl f \<Rightarrow> 0) [0..<?n]
        = map (\<lambda>r. int (buffcount div ?n + (if r < buffcount mod ?n then 1 else 0))) [0..<?n]"
  proof (rule map_cong [OF refl])
    fix r assume "r \<in> set [0..<?n]"
    then have r: "r < ?n" by simp
    from getTeamPartitionSize_nat [of "this\<lparr>rank := int r\<rparr>" buffcount] n q r
    show "(case getTeamPartitionSize (this\<lparr>rank := int r\<rparr>) buffcount of
            Inr p \<Rightarrow> p | Inl f \<Rightarrow> 0)
          = int (buffcount div ?n + (if r < buffcount mod ?n then 1 else 0))"
      by simp
  qed
  then show "sum_list (map (\<lambda>r. case getTeamPartitionSize (this\<lparr>rank := int r\<rparr>) buffcount of
                               Inr p \<Rightarrow> p | Inl f \<Rightarrow> 0) [0..<?n]) = int buffcount"
    using partition_sum [OF n(1), of buffcount] by (simp only: sum_list_int)
qed

text \<open>The theorem at seven elements for the root of a group of three.\<close>

theorem getTeamPartitionSize_chunk_witness:
  "0 < nparticipants ex_root \<and> nparticipants ex_root \<le> 2 ^ 31
   \<and> 7 div nparticipants ex_root < 2 ^ 31 - 1
   \<and> 0 \<le> rank ex_root \<and> nat (rank ex_root) < nparticipants ex_root
   \<and> getTeamPartitionSize ex_root 7 = Inr 3
   \<and> sum_list (map (\<lambda>r. case getTeamPartitionSize (ex_root\<lparr>rank := int r\<rparr>) 7 of
                               Inr p \<Rightarrow> p | Inl f \<Rightarrow> 0) [0..<nparticipants ex_root]) = 7"
proof -
  have h: "0 < nparticipants ex_root" "nparticipants ex_root \<le> 2 ^ 31"
    "7 div nparticipants ex_root < 2 ^ 31 - 1"
    and r: "0 \<le> rank ex_root \<and> nat (rank ex_root) < nparticipants ex_root"
    by (simp_all add: ex_root_def)
  note inst = getTeamPartitionSize_chunk [OF h]
  from inst r have a: "getTeamPartitionSize ex_root 7
      = Inr (int (spec_chunk 7 1 (nparticipants ex_root) (nat (rank ex_root))))"
    by blast
  from inst have b: "sum_list (map (\<lambda>r. case getTeamPartitionSize (ex_root\<lparr>rank := int r\<rparr>) 7 of
                               Inr p \<Rightarrow> p | Inl f \<Rightarrow> 0) [0..<nparticipants ex_root]) = int 7"
    by blast
  have c: "spec_chunk 7 1 (nparticipants ex_root) (nat (rank ex_root)) = 3"
    by (simp add: spec_chunk_def ex_root_def)
  from a c have a': "getTeamPartitionSize ex_root 7 = Inr 3" by simp
  from b have b': "sum_list (map (\<lambda>r. case getTeamPartitionSize (ex_root\<lparr>rank := int r\<rparr>) 7 of
                               Inr p \<Rightarrow> p | Inl f \<Rightarrow> 0) [0..<nparticipants ex_root]) = 7"
    by simp
  from h r a' b' show ?thesis by blast
qed

text \<open>
  Claim C7 as stated fails once the quotient does not fit an \<open>int\<close>: for
  \<open>buffcount = 3 * 2^31\<close> in a group of three the formula gives \<open>2^31\<close> and the code
  returns \<open>- 2^31\<close>.
\<close>

theorem getTeamPartitionSize_chunk_counterexample:
  "0 \<le> rank ex_root \<and> nat (rank ex_root) < nparticipants ex_root
   \<and> 6442450944 div nparticipants ex_root
       + (if nat (rank ex_root) < 6442450944 mod nparticipants ex_root then 1 else 0)
     = (2147483648::nat)
   \<and> getTeamPartitionSize ex_root 6442450944 = Inr (- 2147483648)"
  by (simp add: getTeamPartitionSize_def int_of_size_t_def ex_root_def)



subsection \<open>Scatter at the root\<close>

text \<open>The chunks of all ranks add up to the buffer, and the chunk of a rank ends inside
  it.\<close>

lemma spec_displ_Suc:
  "spec_displ tot ds n (Suc r) = spec_displ tot ds n r + spec_chunk tot ds n r"
  by (simp add: spec_displ_def)

lemma spec_chunk_sum:
  assumes "0 < ds" "0 < n" "tot mod ds = 0"
  shows "sum_list (map (spec_chunk tot ds n) [0..<n]) = tot"
proof -
  let ?c = "tot div ds"
  have "sum_list (map (\<lambda>r. ?c div n * ds + (if r < ?c mod n then ds else 0)) [0..<k])
        = k * (?c div n * ds) + min k (?c mod n) * ds" for k
    by (induction k) (auto simp: algebra_simps)
  moreover have "spec_chunk tot ds n
        = (\<lambda>r. ?c div n * ds + (if r < ?c mod n then ds else 0))"
    by (rule ext) (simp add: spec_chunk_def Let_def)
  ultimately have "sum_list (map (spec_chunk tot ds n) [0..<n])
        = n * (?c div n * ds) + min n (?c mod n) * ds"
    by (simp only:)
  also have "min n (?c mod n) = ?c mod n"
  proof -
    have "?c mod n < n" using assms by simp
    then show ?thesis by simp
  qed
  also have "n * (?c div n * ds) + ?c mod n * ds = (n * (?c div n) + ?c mod n) * ds"
    by (simp only: distrib_right mult.assoc)
  also have "\<dots> = ?c * ds" by (simp only: mult_div_mod_eq)
  also have "\<dots> = tot" using assms by (simp add: mod_eq_0_iff_dvd)
  finally show ?thesis .
qed

lemma spec_displ_le:
  assumes "0 < ds" "0 < n" "tot mod ds = 0" "r < n"
  shows "spec_displ tot ds n r + spec_chunk tot ds n r \<le> tot"
proof -
  have "[0..<n] = [0..<Suc r] @ [Suc r..<n]"
    using assms(4) by (metis Suc_leI upt_add_eq_append le_add_diff_inverse zero_le add_0)
  then have "sum_list (map (spec_chunk tot ds n) [0..<n])
        = spec_displ tot ds n (Suc r) + sum_list (map (spec_chunk tot ds n) [Suc r..<n])"
    by (simp add: spec_displ_def)
  with spec_chunk_sum [OF assms(1-3)] show ?thesis
    by (simp add: spec_displ_Suc)
qed

text \<open>The send loop from index \<open>i\<close> on, when every send it issues succeeds: it runs to its
  end and sends to peer \<open>j\<close> the chunk of rank \<open>j\<close>, taken at the displacement of rank
  \<open>j\<close>.\<close>

lemma Scatter_send_loop_all:
  assumes sc: "sendcount = sendsize div ds div n * ds" and R: "R = sendsize div ds mod n"
    and len: "n - 1 \<le> length parts" and i: "i \<le> n - 1"
    and ok: "\<forall>j\<in>{Suc i..<n}. 0 \<le> sr_ret (t_send T (length (trace w) + (j - Suc i)) (parts ! (j - 1))
                     (take (spec_chunk sendsize ds n j) (drop (spec_displ sendsize ds n j) sb)))"
  shows "\<exists>w'. Scatter_send_loop T parts n sendcount ds i (R - Suc i)
                 (drop (spec_displ sendsize ds n (Suc i)) sb) w = Inr (None, w')
             \<and> heap w' = heap w
             \<and> trace w' = trace w @ map (\<lambda>j. EvSend (parts ! (j - 1))
                     (take (spec_chunk sendsize ds n j) (drop (spec_displ sendsize ds n j) sb)))
                   [Suc i..<n]"
  using i ok
proof (induction "n - 1 - i" arbitrary: i w)
  case 0
  then have "\<not> i < n - 1" by simp
  moreover from 0 have "[Suc i..<n] = []" by simp
  ultimately show ?case by (simp add: Scatter_send_loop.simps)
next
  case (Suc k)
  then have lt: "i < n - 1" by simp
  let ?c = "spec_chunk sendsize ds n (Suc i)"
  let ?data = "take ?c (drop (spec_displ sendsize ds n (Suc i)) sb)"
  have chunk: "(if R - Suc i > 0 then sendcount + ds else sendcount) = ?c"
    by (simp add: spec_chunk_def sc R Let_def)
  have rc: "(if R - Suc i > 0 then R - Suc i - 1 else R - Suc i) = R - Suc (Suc i)" by simp
  have il: "i < length parts" using lt len by simp
  obtain r w1 where S: "Handle_send T (parts ! i) ?data w = (r, w1)"
    by (cases "Handle_send T (parts ! i) ?data w") auto
  then have w1: "heap w1 = heap w" "trace w1 = trace w @ [EvSend (parts ! i) ?data]"
    and r: "r = sr_ret (t_send T (length (trace w)) (parts ! i) ?data)"
    by (auto simp: Handle_send_def set_errno_def Let_def split: option.splits)
  have mem: "Suc i \<in> {Suc i..<n}" using lt by simp
  from Suc.prems(2) [rule_format, OF mem] r have r0: "\<not> r < 0" by simp
  have ok': "\<forall>j\<in>{Suc (Suc i)..<n}. 0 \<le> sr_ret (t_send T (length (trace w1) + (j - Suc (Suc i))) (parts ! (j - 1))
                     (take (spec_chunk sendsize ds n j) (drop (spec_displ sendsize ds n j) sb)))"
  proof
    fix j assume j: "j \<in> {Suc (Suc i)..<n}"
    then have "j \<in> {Suc i..<n}" by simp
    with Suc.prems(2) have "0 \<le> sr_ret (t_send T (length (trace w) + (j - Suc i)) (parts ! (j - 1))
                     (take (spec_chunk sendsize ds n j) (drop (spec_displ sendsize ds n j) sb)))"
      by blast
    moreover have "length (trace w1) + (j - Suc (Suc i)) = length (trace w) + (j - Suc i)"
    proof -
      have "length (trace w1) = Suc (length (trace w))" using w1 by simp
      moreover have "Suc (Suc i) \<le> j" using j by simp
      ultimately show ?thesis by arith
    qed
    ultimately show "0 \<le> sr_ret (t_send T (length (trace w1) + (j - Suc (Suc i))) (parts ! (j - 1))
                     (take (spec_chunk sendsize ds n j) (drop (spec_displ sendsize ds n j) sb)))"
      by simp
  qed
  have k: "k = n - 1 - Suc i" using Suc.hyps(2) by simp
  have i': "Suc i \<le> n - 1" using lt by simp
  from Suc.hyps(1) [OF k i' ok'] obtain w' where
    L: "Scatter_send_loop T parts n sendcount ds (Suc i) (R - Suc (Suc i))
                 (drop (spec_displ sendsize ds n (Suc (Suc i))) sb) w1 = Inr (None, w')"
    and W: "heap w' = heap w1"
      "trace w' = trace w1 @ map (\<lambda>j. EvSend (parts ! (j - 1))
                     (take (spec_chunk sendsize ds n j) (drop (spec_displ sendsize ds n j) sb)))
                   [Suc (Suc i)..<n]"
    by blast
  have dd: "drop ?c (drop (spec_displ sendsize ds n (Suc i)) sb)
            = drop (spec_displ sendsize ds n (Suc (Suc i))) sb"
    by (simp add: spec_displ_Suc [of _ _ _ "Suc i"] add.commute)
  have upt: "[Suc i..<n] = Suc i # [Suc (Suc i)..<n]"
    using lt by (simp add: upt_conv_Cons)
  have "Scatter_send_loop T parts n sendcount ds i (R - Suc i)
                 (drop (spec_displ sendsize ds n (Suc i)) sb) w = Inr (None, w')"
    apply (subst Scatter_send_loop.simps)
    apply (simp only: lt il if_True Let_def chunk rc S prod.case r0 if_False dd)
    apply (simp only: L Suc_eq_plus1 [symmetric])
    done
  with W w1 upt show ?case by simp
qed


text \<open>
  Claim C1, as amended. At the root of a group of \<open>n\<close> with its \<open>n - 1\<close> peer Handles, with
  both buffers non-null, \<open>sendsize\<close> a multiple of \<open>datasize\<close>, \<open>recvsize\<close> at least
  \<open>chunk(0)\<close> and every send of the call succeeding, Scatter's \<open>sendrecv\<close> copies the first
  \<open>chunk(0)\<close> bytes of the send buffer to the front of the receive buffer, then sends to
  the peers of rank \<open>1, ..., n - 1\<close>, in the order of the Handles and with nothing else
  happening on any Handle, \<open>chunk(i)\<close> bytes from the displacement of rank \<open>i\<close>, and returns
  \<open>chunk(0)\<close>. Every message has exactly \<open>chunk(i)\<close> bytes and the chunks of all ranks sum
  to \<open>sendsize\<close>.
\<close>

theorem Scatter_root_sendrecv:
  assumes root: "root this" and ds: "0 < datasize" and n: "0 < nparticipants this"
    and parts: "length (participants this) = nparticipants this - 1"
    and dvd: "sendsize mod datasize = 0"
    and room: "spec_chunk sendsize datasize (nparticipants this) 0 \<le> recvsize"
    and sb: "sendsize \<le> length sb"
    and ok: "\<forall>i\<in>{1..<nparticipants this}.
               0 \<le> sr_ret (t_send T (length (trace w) + (i - 1)) (participants this ! (i - 1))
                      (take (spec_chunk sendsize datasize (nparticipants this) i)
                         (drop (spec_displ sendsize datasize (nparticipants this) i) sb)))"
  shows "(\<exists>w'. Scatter_sendrecv T this (Some sb) sendsize (Some rb) recvsize datasize w
               = Inr (int (spec_chunk sendsize datasize (nparticipants this) 0),
                      Some (take (spec_chunk sendsize datasize (nparticipants this) 0) sb
                            @ drop (spec_chunk sendsize datasize (nparticipants this) 0) rb),
                      w')
             \<and> heap w' = heap w
             \<and> trace w' = trace w @ map (\<lambda>i. EvSend (participants this ! (i - 1))
                    (take (spec_chunk sendsize datasize (nparticipants this) i)
                       (drop (spec_displ sendsize datasize (nparticipants this) i) sb)))
                  [1..<nparticipants this])
       \<and> (\<forall>i<nparticipants this.
             length (take (spec_chunk sendsize datasize (nparticipants this) i)
                       (drop (spec_displ sendsize datasize (nparticipants this) i) sb))
             = spec_chunk sendsize datasize (nparticipants this) i)
       \<and> sum_list (map (spec_chunk sendsize datasize (nparticipants this))
                    [0..<nparticipants this]) = sendsize"
proof (intro conjI allI impI)
  let ?n = "nparticipants this"
  let ?chunk = "spec_chunk sendsize datasize ?n"
  let ?displ = "spec_displ sendsize datasize ?n"
  let ?sendcount = "sendsize div datasize div ?n * datasize"
  let ?R = "sendsize div datasize mod ?n"
  have self: "(if ?R > 0 then ?sendcount + datasize else ?sendcount) = ?chunk 0"
    by (simp add: spec_chunk_def Let_def)
  have rc: "(if ?R > 0 then ?R - 1 else ?R) = ?R - Suc 0" by simp
  have d1: "?displ (Suc 0) = ?chunk 0" by (simp add: spec_displ_def)
  have ok': "\<forall>j\<in>{Suc 0..<?n}. 0 \<le> sr_ret (t_send T (length (trace w) + (j - Suc 0))
                   (participants this ! (j - 1)) (take (?chunk j) (drop (?displ j) sb)))"
    using ok by simp
  have len: "?n - 1 \<le> length (participants this)" using parts by simp
  have i0: "0 \<le> ?n - 1" by simp
  from Scatter_send_loop_all [OF refl refl len i0 ok']
  obtain w' where L: "Scatter_send_loop T (participants this) ?n ?sendcount datasize 0 (?R - Suc 0)
                 (drop (?chunk 0) sb) w = Inr (None, w')"
    and W: "heap w' = heap w"
      "trace w' = trace w @ map (\<lambda>j. EvSend (participants this ! (j - 1))
                     (take (?chunk j) (drop (?displ j) sb))) [Suc 0..<?n]"
    by (auto simp: d1)
  have "Scatter_sendrecv T this (Some sb) sendsize (Some rb) recvsize datasize w
        = Inr (int (?chunk 0), Some (take (?chunk 0) sb @ drop (?chunk 0) rb), w')"
    using root ds n dvd room
    by (simp add: Scatter_sendrecv_def Let_def self rc L memcpy_def del: One_nat_def)
  with W show "\<exists>w'. Scatter_sendrecv T this (Some sb) sendsize (Some rb) recvsize datasize w
               = Inr (int (?chunk 0), Some (take (?chunk 0) sb @ drop (?chunk 0) rb), w')
             \<and> heap w' = heap w
             \<and> trace w' = trace w @ map (\<lambda>i. EvSend (participants this ! (i - 1))
                    (take (?chunk i) (drop (?displ i) sb))) [1..<?n]"
    by simp
next
  fix i assume "i < nparticipants this"
  from spec_displ_le [OF ds n dvd this] sb
  show "length (take (spec_chunk sendsize datasize (nparticipants this) i)
                       (drop (spec_displ sendsize datasize (nparticipants this) i) sb))
             = spec_chunk sendsize datasize (nparticipants this) i"
    by simp
next
  show "sum_list (map (spec_chunk sendsize datasize (nparticipants this))
                    [0..<nparticipants this]) = sendsize"
    by (rule spec_chunk_sum [OF ds n dvd])
qed


text \<open>Scenario S2: seven bytes in a group of three.\<close>

lemma ex_chunks:
  "spec_chunk 7 1 3 0 = 3" "spec_chunk 7 1 3 1 = 2" "spec_chunk 7 1 3 2 = 2"
  "spec_displ 7 1 3 1 = 3" "spec_displ 7 1 3 2 = 5"
  "spec_chunk 7 (Suc 0) 3 0 = 3" "spec_chunk 7 (Suc 0) 3 (Suc 0) = 2" "spec_chunk 7 (Suc 0) 3 2 = 2"
  "spec_displ 7 (Suc 0) 3 (Suc 0) = 3" "spec_displ 7 (Suc 0) 3 2 = 5"
  by (simp_all add: spec_chunk_def spec_displ_def upt_conv_Cons)

theorem Scatter_root_sendrecv_witness:
  "root ex_root \<and> (0::nat) < 1 \<and> 0 < nparticipants ex_root
   \<and> length (participants ex_root) = nparticipants ex_root - 1
   \<and> (7::nat) mod 1 = 0 \<and> spec_chunk 7 1 (nparticipants ex_root) 0 \<le> 7
   \<and> 7 \<le> length ''abcdefg''
   \<and> (\<exists>w'. Scatter_sendrecv ex_transport ex_root (Some ''abcdefg'') 7 (Some ''.......'') 7 1
               (ex_world (False, 0) False) = Inr (3, Some ''abc....'', w')
            \<and> trace w' = [EvSend 10 ''de'', EvSend 20 ''fg''])
   \<and> sum_list (map (spec_chunk 7 1 (nparticipants ex_root)) [0..<nparticipants ex_root]) = 7"
proof -
  have n: "nparticipants ex_root = 3" and p: "participants ex_root = [10, 20]"
    and r: "root ex_root"
    by (simp_all add: ex_root_def)
  have t: "trace (ex_world (False, 0) False) = []" by (simp add: ex_world_def)
  have h: "root ex_root" "(0::nat) < 1" "0 < nparticipants ex_root"
    "length (participants ex_root) = nparticipants ex_root - 1"
    "(7::nat) mod 1 = 0" "spec_chunk 7 1 (nparticipants ex_root) 0 \<le> 7"
    "7 \<le> length ''abcdefg''"
    by (simp_all add: n p r ex_chunks)
  have ok: "\<forall>i\<in>{1..<nparticipants ex_root}.
               0 \<le> sr_ret (t_send ex_transport (length (trace (ex_world (False, 0) False)) + (i - 1))
                      (participants ex_root ! (i - 1))
                      (take (spec_chunk 7 1 (nparticipants ex_root) i)
                         (drop (spec_displ 7 1 (nparticipants ex_root) i) ''abcdefg'')))"
    by (simp add: ex_transport_def)
  have u: "[Suc 0..<3] = [Suc 0, 2]" by (simp add: upt_conv_Cons)
  note inst = Scatter_root_sendrecv [OF h ok, of "''.......''"]
  from inst obtain w' where
    A: "Scatter_sendrecv ex_transport ex_root (Some ''abcdefg'') 7 (Some ''.......'') 7 1
          (ex_world (False, 0) False)
        = Inr (int (spec_chunk 7 1 (nparticipants ex_root) 0),
               Some (take (spec_chunk 7 1 (nparticipants ex_root) 0) ''abcdefg''
                     @ drop (spec_chunk 7 1 (nparticipants ex_root) 0) ''.......''), w')"
    and B: "trace w' = trace (ex_world (False, 0) False)
              @ map (\<lambda>i. EvSend (participants ex_root ! (i - 1))
                    (take (spec_chunk 7 1 (nparticipants ex_root) i)
                       (drop (spec_displ 7 1 (nparticipants ex_root) i) ''abcdefg'')))
                  [1..<nparticipants ex_root]"
    by blast
  from A have A': "Scatter_sendrecv ex_transport ex_root (Some ''abcdefg'') 7 (Some ''.......'') 7 1
          (ex_world (False, 0) False) = Inr (3, Some ''abc....'', w')"
    by (simp add: n ex_chunks)
  from B have B': "trace w' = [EvSend 10 ''de'', EvSend 20 ''fg'']"
    by (simp add: n p t u ex_chunks)
  from inst have C: "sum_list (map (spec_chunk 7 1 (nparticipants ex_root))
                        [0..<nparticipants ex_root]) = 7"
    by blast
  from h A' B' C show ?thesis by blast
qed

text \<open>
  Claim C1 as stated fails when a send fails: in scenario S2 on a transport whose sends
  return -1, the call stops at the first peer and returns -1 with \<open>ECONNRESET\<close> instead of
  \<open>chunk(0) = 3\<close>, and the peer of rank 2 is sent nothing.
\<close>

theorem Scatter_root_sendrecv_counterexample:
  "root ex_root \<and> (7::nat) mod 1 = 0 \<and> spec_chunk 7 1 (nparticipants ex_root) 0 = 3
   \<and> (case Scatter_sendrecv ex_transport_sendfail ex_root (Some ''abcdefg'') 7 (Some ''.......'') 7 1
              (ex_world (False, 0) False) of
         Inr (r, b, w) \<Rightarrow> r = - 1 \<and> errno w = ECONNRESET \<and> trace w = [EvSend 10 ''de'']
       | Inl f \<Rightarrow> False)"
  by (simp add: Scatter_sendrecv_def Scatter_send_loop.simps Handle_send_def set_errno_def
      memcpy_def Let_def ex_root_def ex_transport_sendfail_def ex_transport_def ex_world_def
      spec_chunk_def)



subsection \<open>FanIn: the scan of a probe\<close>

lemma eos_handles_append: "eos_handles (es1 @ es2) = eos_handles es1 @ eos_handles es2"
  by (induction es1 rule: eos_handles.induct) auto

lemma eos_absorbed_append:
  "eos_absorbed es1 \<Longrightarrow> eos_absorbed es2 \<Longrightarrow> eos_absorbed (es1 @ es2)"
  by (induction es1 rule: eos_absorbed.induct) auto

lemma mset_erase_at:
  "i < length xs \<Longrightarrow> mset xs = mset (erase_at i xs) + {#xs ! i#}"
proof -
  assume "i < length xs"
  then have "xs = take i xs @ xs ! i # drop (Suc i) xs" by (rule id_take_nth_drop)
  then have "mset xs = mset (take i xs @ xs ! i # drop (Suc i) xs)" by simp
  then show ?thesis by (simp add: erase_at_def)
qed

lemma length_erase_at: "i < length xs \<Longrightarrow> length (erase_at i xs) = length xs - 1"
  by (auto simp: erase_at_def)

text \<open>One pass through the loop body at a valid iterator: it starts with the
  non-blocking probe of the Handle at the iterator; an end of stream found there is
  followed by the close of that Handle, which leaves the list; a positive \<open>res\<close> comes
  with a non-zero \<open>size\<close>; and unless the body breaks, the iterator is valid again or the
  list is empty.\<close>

lemma FanIn_probe_body_obs:
  assumes B: "FanIn_probe_body T blocking (iter, res, size', this, w)
              = (brk, (iter', res', size'', this', w'))"
    and I: "iter < length (participants this)"
  shows "\<exists>r s es. trace w' = trace w @ EvProbe (participants this ! iter) False r s # es
           \<and> eos_absorbed (EvProbe (participants this ! iter) False r s # es)
           \<and> mset (participants this)
               = mset (participants this')
                 + mset (eos_handles (EvProbe (participants this ! iter) False r s # es))
           \<and> (0 < res' \<longrightarrow> size'' \<noteq> 0)
           \<and> (\<not> brk \<longrightarrow> participants this' = [] \<or> iter' < length (participants this'))
           \<and> (\<not> blocking \<and> \<not> brk \<longrightarrow>
                 iter' < length (participants this')
                 \<and> length (participants this') - iter' < length (participants this) - iter)"
proof -
  let ?h = "participants this ! iter"
  obtain r s w1 where P: "Handle_probe T ?h size' False w = (r, s, w1)"
    by (cases "Handle_probe T ?h size' False w") auto
  then have w1: "heap w1 = heap w" "trace w1 = trace w @ [EvProbe ?h False r s]"
    by (auto simp: Handle_probe_def set_errno_def Let_def split: option.splits)
  show ?thesis
  proof (cases "0 < r \<and> s = 0")
    case True
    with B P w1 I mset_erase_at [OF I] length_erase_at [OF I] show ?thesis
      apply -
      apply (rule exI [of _ r])
      apply (rule exI [of _ s])
      apply (rule exI [of _ "[EvClose ?h True True]"])
      apply (auto simp: FanIn_probe_body_def Let_def Handle_close_def split: if_splits)
      done
  next
    case False
    with B P w1 I show ?thesis
      apply -
      apply (rule exI [of _ r])
      apply (rule exI [of _ s])
      apply (rule exI [of _ "[]"])
      apply (auto simp: FanIn_probe_body_def Let_def set_probed_def split: if_splits)
      done
  qed
qed


text \<open>The same for the loop as a whole, by induction on the fuel.\<close>

lemma FanIn_probe_loop_obs:
  assumes "FanIn_probe_loop fuel T blocking (iter, res, size', this, w)
           = Some (iter', res', size'', this', w')"
    and "participants this = [] \<or> iter < length (participants this)"
    and "0 < res \<longrightarrow> size' \<noteq> 0"
  shows "\<exists>es. trace w' = trace w @ es \<and> eos_absorbed es
           \<and> mset (participants this) = mset (participants this') + mset (eos_handles es)
           \<and> (0 < res' \<longrightarrow> size'' \<noteq> 0)
           \<and> (res = - 1 \<and> participants this \<noteq> [] \<longrightarrow>
                (\<exists>r s es'. es = EvProbe (participants this ! iter) False r s # es'))"
  using assms
proof (induction fuel arbitrary: iter res size' this w)
  case 0
  then show ?case by simp
next
  case (Suc fuel)
  show ?case
  proof (cases "res = - 1 \<and> participants this \<noteq> []")
    case False
    with Suc.prems have "(iter', res', size'', this', w') = (iter, res, size', this, w)"
      by auto
    with Suc.prems False show ?thesis by auto
  next
    case True
    with Suc.prems(2) have I: "iter < length (participants this)" by simp
    obtain brk i1 r1 s1 t1 w1 where
      B: "FanIn_probe_body T blocking (iter, res, size', this, w) = (brk, (i1, r1, s1, t1, w1))"
      by (metis prod_cases5 surj_pair)
    from FanIn_probe_body_obs [OF B I] obtain r s es1 where
      b: "trace w1 = trace w @ EvProbe (participants this ! iter) False r s # es1"
        "eos_absorbed (EvProbe (participants this ! iter) False r s # es1)"
        "mset (participants this) = mset (participants t1)
           + mset (eos_handles (EvProbe (participants this ! iter) False r s # es1))"
        "0 < r1 \<longrightarrow> s1 \<noteq> 0"
        "\<not> brk \<longrightarrow> participants t1 = [] \<or> i1 < length (participants t1)"
      by blast
    show ?thesis
    proof (cases brk)
      case brk: True
      with Suc.prems(1) True B have "(iter', res', size'', this', w') = (i1, r1, s1, t1, w1)"
        by simp
      with b True show ?thesis by auto
    next
      case nb: False
      with Suc.prems(1) True B have
        L: "FanIn_probe_loop fuel T blocking (i1, r1, s1, t1, w1)
            = Some (iter', res', size'', this', w')"
        by simp
      from nb b(5) have i1: "participants t1 = [] \<or> i1 < length (participants t1)" by simp
      from Suc.IH [OF L i1 b(4)] obtain es2 where
        c: "trace w' = trace w1 @ es2" "eos_absorbed es2"
          "mset (participants t1) = mset (participants this') + mset (eos_handles es2)"
          "0 < res' \<longrightarrow> size'' \<noteq> 0"
        by blast
      let ?es = "(EvProbe (participants this ! iter) False r s # es1) @ es2"
      have "trace w' = trace w @ ?es" using b(1) c(1) by simp
      moreover have "eos_absorbed ?es" using b(2) c(2) by (rule eos_absorbed_append)
      moreover have "mset (participants this) = mset (participants this') + mset (eos_handles ?es)"
        using b(3) c(3) by (simp only: eos_handles_append mset_append) simp
      moreover have "\<exists>r s es'. ?es = EvProbe (participants this ! iter) False r s # es'" by simp
      ultimately show ?thesis using c(4) by blast
    qed
  qed
qed

text \<open>In non-blocking mode the distance from the iterator to the end of the list shrinks
  with every pass, so the loop ends within that many passes.\<close>

lemma FanIn_probe_loop_nonblocking_total:
  assumes "participants this = [] \<or> iter < length (participants this)"
    and "length (participants this) - iter \<le> fuel" and "0 < fuel"
  shows "FanIn_probe_loop fuel T False (iter, res, size', this, w) \<noteq> None"
  using assms
proof (induction fuel arbitrary: iter res size' this w)
  case 0
  then show ?case by simp
next
  case (Suc fuel)
  show ?case
  proof (cases "res = - 1 \<and> participants this \<noteq> []")
    case False
    then show ?thesis by auto
  next
    case True
    with Suc.prems(1) have I: "iter < length (participants this)" by simp
    obtain brk i1 r1 s1 t1 w1 where
      B: "FanIn_probe_body T False (iter, res, size', this, w) = (brk, (i1, r1, s1, t1, w1))"
      by (metis prod_cases5 surj_pair)
    show ?thesis
    proof (cases brk)
      case True
      with B \<open>res = - 1 \<and> participants this \<noteq> []\<close> show ?thesis by simp
    next
      case False
      with FanIn_probe_body_obs [OF B I] have
        m: "i1 < length (participants t1)"
          "length (participants t1) - i1 < length (participants this) - iter"
        by auto
      with Suc.prems(2) have "length (participants t1) - i1 \<le> fuel" "0 < fuel" by simp_all
      from Suc.IH [OF _ this] m(1)
      have "FanIn_probe_loop fuel T False (i1, r1, s1, t1, w1) \<noteq> None" by simp
      with B False \<open>res = - 1 \<and> participants this \<noteq> []\<close> show ?thesis by simp
    qed
  qed
qed


subsection \<open>FanIn: what the loop reads of the object\<close>




subsection \<open>FanIn: one pass of the loop\<close>


text \<open>A Handle probe, written out: the answer of the transport at the current length of
  the trace, \<open>size\<close> overwritten if the transport stores one, and one event.\<close>

lemma Handle_probe_eq:
  "Handle_probe T h size' b w
   = (pr_ret (t_probe T (length (trace w)) h b),
      (case pr_size (t_probe T (length (trace w)) h b) of None \<Rightarrow> size' | Some v \<Rightarrow> v),
      set_errno (pr_errno (t_probe T (length (trace w)) h b))
        (w\<lparr>trace := trace w @ [EvProbe h b (pr_ret (t_probe T (length (trace w)) h b))
             (case pr_size (t_probe T (length (trace w)) h b) of None \<Rightarrow> size' | Some v \<Rightarrow> v)]\<rparr>))"
  by (simp add: Handle_probe_def Let_def)

lemma set_errno_obs [simp]:
  "heap (set_errno e w) = heap w" "trace (set_errno e w) = trace w"
  by (simp_all add: set_errno_def split: option.splits)





subsection \<open>FanIn: the order of the scan\<close>






subsection \<open>FanIn: the answers of the transport and the return of the call\<close>

lemma probes_answered_append:
  "probes_answered T t (es1 @ es2)
   = (probes_answered T t es1 \<and> probes_answered T (t + length es1) es2)"
  by (induction T t es1 rule: probes_answered.induct) auto

text \<open>Every pass probes the Handle under the iterator, and the events it appends record
  the answers of the transport.\<close>

lemma FanIn_probe_body_answers:
  assumes B: "FanIn_probe_body T blocking (iter, res, size', this, w)
              = (brk, (iter', res', size'', this', w'))"
    and I: "iter < length (participants this)"
  shows "\<exists>r s es. trace w' = trace w @ EvProbe (participants this ! iter) False r s # es
           \<and> probes_answered T (length (trace w))
                (EvProbe (participants this ! iter) False r s # es)
           \<and> (res' \<noteq> - 1 \<longrightarrow> es = [] \<and> res' = r \<and> size'' = s)
           \<and> (brk \<longrightarrow> \<not> blocking)
           \<and> (r = - 1 \<longrightarrow> participants this' = participants this \<and> es = [])
           \<and> (r \<noteq> - 1 \<and> res' = - 1 \<longrightarrow>
                 length (participants this') < length (participants this))
           \<and> length (participants this') \<le> length (participants this)"
proof -
  let ?h = "participants this ! iter"
  let ?rep = "t_probe T (length (trace w)) ?h False"
  let ?s = "case pr_size ?rep of None \<Rightarrow> size' | Some v \<Rightarrow> v"
  have l: "length (erase_at iter (participants this)) = length (participants this) - 1"
    by (rule length_erase_at [OF I])
  show ?thesis
  proof (cases "0 < pr_ret ?rep \<and> ?s = 0")
    case True
    with B I l show ?thesis
      apply -
      apply (rule exI [of _ "pr_ret ?rep"])
      apply (rule exI [of _ ?s])
      apply (rule exI [of _ "[EvClose ?h True True]"])
      apply (auto simp: FanIn_probe_body_def Handle_probe_eq Handle_close_def Let_def
          split: if_splits option.splits)
      done
  next
    case False
    with B I show ?thesis
      apply -
      apply (rule exI [of _ "pr_ret ?rep"])
      apply (rule exI [of _ ?s])
      apply (rule exI [of _ "[]"])
      apply (auto simp: FanIn_probe_body_def Handle_probe_eq set_probed_def Let_def
          split: if_splits option.splits)
      done
  qed
qed

lemma FanIn_probe_loop_answers:
  assumes "FanIn_probe_loop fuel T blocking (iter, res, size', this, w)
           = Some (iter', res', size'', this', w')"
    and "participants this = [] \<or> iter < length (participants this)"
  shows "\<exists>es. trace w' = trace w @ es \<and> probes_answered T (length (trace w)) es
           \<and> (blocking \<and> participants this' \<noteq> [] \<longrightarrow> res' \<noteq> - 1)
           \<and> (res = - 1 \<and> res' \<noteq> - 1 \<longrightarrow>
                 es \<noteq> [] \<and> (\<exists>h. last es = EvProbe h False res' size''))"
  using assms
proof (induction fuel arbitrary: iter res size' this w)
  case 0
  then show ?case by simp
next
  case (Suc fuel)
  show ?case
  proof (cases "res = - 1 \<and> participants this \<noteq> []")
    case False
    with Suc.prems have "(iter', res', size'', this', w') = (iter, res, size', this, w)"
      by auto
    with False show ?thesis by (intro exI [of _ "[]"]) auto
  next
    case True
    with Suc.prems(2) have I: "iter < length (participants this)" by simp
    obtain brk i1 r1 s1 t1 w1 where
      B: "FanIn_probe_body T blocking (iter, res, size', this, w) = (brk, (i1, r1, s1, t1, w1))"
      by (metis prod_cases5 surj_pair)
    from FanIn_probe_body_answers [OF B I] obtain r s es1 where
      b: "trace w1 = trace w @ EvProbe (participants this ! iter) False r s # es1"
        "probes_answered T (length (trace w)) (EvProbe (participants this ! iter) False r s # es1)"
        "r1 \<noteq> - 1 \<longrightarrow> es1 = [] \<and> r1 = r \<and> s1 = s"
        "brk \<longrightarrow> \<not> blocking"
      by blast
    let ?e1 = "EvProbe (participants this ! iter) False r s # es1"
    from FanIn_probe_body_obs [OF B I]
    have v1: "\<not> brk \<longrightarrow> participants t1 = [] \<or> i1 < length (participants t1)" by blast
    show ?thesis
    proof (cases brk)
      case brk: True
      with Suc.prems(1) True B have "(iter', res', size'', this', w') = (i1, r1, s1, t1, w1)"
        by simp
      with b brk show ?thesis by (intro exI [of _ ?e1]) auto
    next
      case nb: False
      with Suc.prems(1) True B have
        L: "FanIn_probe_loop fuel T blocking (i1, r1, s1, t1, w1)
            = Some (iter', res', size'', this', w')"
        by simp
      from nb v1 have i1: "participants t1 = [] \<or> i1 < length (participants t1)" by simp
      from Suc.IH [OF L i1] obtain es2 where
        c: "trace w' = trace w1 @ es2" "probes_answered T (length (trace w1)) es2"
          "blocking \<and> participants this' \<noteq> [] \<longrightarrow> res' \<noteq> - 1"
          "r1 = - 1 \<and> res' \<noteq> - 1 \<longrightarrow> es2 \<noteq> [] \<and> (\<exists>h. last es2 = EvProbe h False res' size'')"
        by blast
      have t: "trace w' = trace w @ ?e1 @ es2" using b(1) c(1) by simp
      have a: "probes_answered T (length (trace w)) (?e1 @ es2)"
        using b(1,2) c(2) by (simp only: probes_answered_append) simp
      have z: "r1 \<noteq> - 1 \<longrightarrow> (iter', res', size'', this', w') = (i1, r1, s1, t1, w1)"
        using L by (cases fuel) auto
      have e: "res' \<noteq> - 1 \<longrightarrow> (?e1 @ es2) \<noteq> [] \<and> (\<exists>h. last (?e1 @ es2) = EvProbe h False res' size'')"
      proof
        assume n1: "res' \<noteq> - 1"
        show "(?e1 @ es2) \<noteq> [] \<and> (\<exists>h. last (?e1 @ es2) = EvProbe h False res' size'')"
        proof (cases "r1 = - 1")
          case True
          with c(4) n1 show ?thesis by auto
        next
          case False
          with z have eq: "(iter', res', size'', this', w') = (i1, r1, s1, t1, w1)" by simp
          with c(1) have "es2 = []" by simp
          with False b(3) eq show ?thesis by auto
        qed
      qed
      from t a c(3) e show ?thesis by blast
    qed
  qed
qed

text \<open>Once the transport has stopped answering -1, the loop ends within one pass per
  participant: each pass either keeps a result or erases a Handle.\<close>

lemma FanIn_probe_loop_returns:
  assumes "participants this = [] \<or> iter < length (participants this)"
    and "\<forall>t\<ge>length (trace w) + W. \<forall>h. pr_ret (t_probe T t h False) \<noteq> - 1"
    and "W + length (participants this) < fuel"
  shows "FanIn_probe_loop fuel T blocking (iter, res, size', this, w) \<noteq> None"
  using assms
proof (induction fuel arbitrary: iter res size' this w W)
  case 0
  then show ?case by simp
next
  case (Suc fuel)
  show ?case
  proof (cases "res = - 1 \<and> participants this \<noteq> []")
    case False
    then show ?thesis by auto
  next
    case True
    with Suc.prems(1) have I: "iter < length (participants this)" by simp
    obtain brk i1 r1 s1 t1 w1 where
      B: "FanIn_probe_body T blocking (iter, res, size', this, w) = (brk, (i1, r1, s1, t1, w1))"
      by (metis prod_cases5 surj_pair)
    show ?thesis
    proof (cases brk)
      case True
      with B \<open>res = - 1 \<and> participants this \<noteq> []\<close> show ?thesis by simp
    next
      case False
      from FanIn_probe_body_obs [OF B I] False
      have v1: "participants t1 = [] \<or> i1 < length (participants t1)" by blast
      from FanIn_probe_body_answers [OF B I] obtain r s es1 where
        b: "trace w1 = trace w @ EvProbe (participants this ! iter) False r s # es1"
          "probes_answered T (length (trace w))
             (EvProbe (participants this ! iter) False r s # es1)"
          "r = - 1 \<longrightarrow> participants t1 = participants this \<and> es1 = []"
          "r \<noteq> - 1 \<and> r1 = - 1 \<longrightarrow> length (participants t1) < length (participants this)"
          "length (participants t1) \<le> length (participants this)"
        by blast
      have step: "FanIn_probe_loop (Suc fuel) T blocking (iter, res, size', this, w)
                  = FanIn_probe_loop fuel T blocking (i1, r1, s1, t1, w1)"
        using B False \<open>res = - 1 \<and> participants this \<noteq> []\<close> by simp
      have f0: "0 < fuel" using Suc.prems(3) I by simp
      have "FanIn_probe_loop fuel T blocking (i1, r1, s1, t1, w1) \<noteq> None"
      proof (cases "r1 = - 1")
        case r1: False
        from f0 obtain f where "fuel = Suc f" by (cases fuel) auto
        with r1 show ?thesis by simp
      next
        case r1: True
        show ?thesis
        proof (cases "r = - 1")
          case True
          have "W \<noteq> 0"
          proof
            assume "W = 0"
            with Suc.prems(2) have "pr_ret (t_probe T (length (trace w))
                      (participants this ! iter) False) \<noteq> - 1" by simp
            with b(2) True show False by simp
          qed
          then obtain W' where W: "W = Suc W'" by (cases W) auto
          from True b(1,3) have l: "length (trace w1) = Suc (length (trace w))"
            and p: "participants t1 = participants this" by simp_all
          have q: "\<forall>t\<ge>length (trace w1) + W'. \<forall>h. pr_ret (t_probe T t h False) \<noteq> - 1"
            using Suc.prems(2) l W by simp
          have "W' + length (participants t1) < fuel" using Suc.prems(3) W p by simp
          from Suc.IH [OF v1 q this] show ?thesis .
        next
          case False
          with r1 b(4) have p: "length (participants t1) < length (participants this)" by simp
          have "length (trace w) \<le> length (trace w1)" using b(1) by simp
          then have q: "\<forall>t\<ge>length (trace w1) + W. \<forall>h. pr_ret (t_probe T t h False) \<noteq> - 1"
            using Suc.prems(2) by simp
          have "W + length (participants t1) < fuel" using Suc.prems(3) p by simp
          from Suc.IH [OF v1 q this] show ?thesis .
        qed
      qed
      with step show ?thesis by simp
    qed
  qed
qed

lemma probes_answered_last:
  assumes "probes_answered T t es" "es \<noteq> []" "last es = EvProbe h b r s"
  shows "r = pr_ret (t_probe T (t + length es - 1) h b)
       \<and> (case pr_size (t_probe T (t + length es - 1) h b) of None \<Rightarrow> True | Some v \<Rightarrow> s = v)"
proof -
  from assms(2,3) have "es = butlast es @ [EvProbe h b r s]"
    by (metis append_butlast_last_id)
  then have "probes_answered T t (butlast es @ [EvProbe h b r s])" using assms(1) by simp
  then have "probes_answered T (t + length (butlast es)) [EvProbe h b r s]"
    by (simp only: probes_answered_append)
  moreover have "t + length (butlast es) = t + length es - 1" using assms(2) by (cases es) auto
  ultimately show ?thesis by simp
qed


subsection \<open>FanIn: the end of stream of a peer and of the group\<close>

text \<open>Two runs on a transport where Handle 10 is at its end of stream: with the
  participants 10 and 20 the end of stream is absorbed and the frame of Handle 20 is
  found; with Handle 10 alone the group ends.\<close>

lemma ex_fanin_eos_run:
  "\<exists>t w. FanIn_probe 3 ex_transport_eos ex_fanin 0 True (ex_world (False, 0) False)
           = Some (8, 5, t, w)
         \<and> participants t = [20] \<and> probed_idx t = 0
         \<and> trace w = [EvProbe 10 False 8 0, EvClose 10 True True, EvProbe 20 False 8 5]"
  by (simp add: FanIn_probe_def FanIn_probe_body_def Handle_probe_def Handle_close_def
      set_probed_def set_errno_def erase_at_def Let_def eval_nat_numeral
      ex_fanin_def ex_transport_eos_def ex_transport_def ex_world_def)

lemma ex_fanin_group_eos_run:
  "\<exists>t w. FanIn_probe 3 ex_transport_eos (ex_fanin\<lparr>participants := [10]\<rparr>) 7 False
             (ex_world (False, 0) False)
           = Some (8, 0, t, w)
         \<and> participants t = []
         \<and> trace w = [EvProbe 10 False 8 0, EvClose 10 True True]"
  by (simp add: FanIn_probe_def FanIn_probe_body_def Handle_probe_def Handle_close_def
      set_probed_def set_errno_def erase_at_def Let_def eval_nat_numeral
      ex_fanin_def ex_transport_eos_def ex_transport_def ex_world_def)

text \<open>
  Claim C9. Whenever a FanIn probe returns: the events of the call record the answers the
  transport gave to its probes, and with a participant the first of them is the
  non-blocking probe of \<open>participants[0]\<close>; every probe that found a peer's end of stream
  (a positive result with \<open>size = 0\<close>) is followed at once by \<open>close(true, true)\<close> on that
  Handle, and the Handles that left \<open>participants\<close> during the call are exactly the
  Handles of those probes; if \<open>participants\<close> is empty at the end, the call returns the
  group end of stream, \<open>size = 0\<close> with the result \<open>sizeof(size_t)\<close>, and if a participant
  remains, the call does not return a positive result with \<open>size = 0\<close>.
  The call does return: in non-blocking mode always, and in either mode once the
  transport has stopped answering -1 (with fuel beyond the number of -1 answers plus the
  number of participants). When every probe finds an end of stream, a blocking call (or a
  call on at most one participant) closes and removes every participant and returns the
  group end of stream.
\<close>

theorem FanIn_probe_absorbs_eos:
  "(FanIn_probe fuel T this size' blocking w = Some (res, size'', this', w') \<longrightarrow>
      (\<exists>es. trace w' = trace w @ es \<and> probes_answered T (length (trace w)) es
            \<and> eos_absorbed es
            \<and> mset (participants this) = mset (participants this') + mset (eos_handles es)
            \<and> (participants this \<noteq> [] \<longrightarrow>
                  (\<exists>r s es'. es = EvProbe (participants this ! 0) False r s # es')))
      \<and> (participants this' = [] \<longrightarrow> res = 8 \<and> size'' = 0)
      \<and> (participants this' \<noteq> [] \<longrightarrow> \<not> (0 < res \<and> size'' = 0)))
   \<and> (\<not> blocking \<and> length (participants this) < fuel \<longrightarrow>
        FanIn_probe fuel T this size' blocking w \<noteq> None)
   \<and> ((\<forall>t\<ge>length (trace w) + W. \<forall>h. pr_ret (t_probe T t h False) \<noteq> - 1)
        \<and> W + length (participants this) < fuel \<longrightarrow>
        FanIn_probe fuel T this size' blocking w \<noteq> None)
   \<and> ((\<forall>t h. 0 < pr_ret (t_probe T t h False) \<and> pr_size (t_probe T t h False) = Some 0)
        \<and> (blocking \<or> length (participants this) \<le> 1)
        \<and> length (participants this) < fuel \<longrightarrow>
        (\<exists>t' v' es. FanIn_probe fuel T this size' blocking w = Some (8, 0, t', v')
            \<and> participants t' = [] \<and> trace v' = trace w @ es \<and> eos_absorbed es
            \<and> mset (eos_handles es) = mset (participants this)))"
proof -
  have valid: "participants this = [] \<or> 0 < length (participants this)" by simp
  have part: "(\<exists>es. trace w1 = trace w @ es \<and> probes_answered T (length (trace w)) es
            \<and> eos_absorbed es
            \<and> mset (participants this) = mset (participants t1) + mset (eos_handles es)
            \<and> (participants this \<noteq> [] \<longrightarrow>
                  (\<exists>r s es'. es = EvProbe (participants this ! 0) False r s # es'))
            \<and> (blocking \<and> participants t1 \<noteq> [] \<longrightarrow> r1 \<noteq> - 1)
            \<and> (r1 \<noteq> - 1 \<longrightarrow> es \<noteq> [] \<and> (\<exists>h. last es = EvProbe h False r1 s1)))
          \<and> (0 < r1 \<longrightarrow> s1 \<noteq> 0)"
    if L: "FanIn_probe_loop fuel T blocking (0, - 1, size', this, w) = Some (i1, r1, s1, t1, w1)"
    for i1 r1 s1 t1 w1
  proof -
    from FanIn_probe_loop_obs [OF L valid] obtain es where
      E: "trace w1 = trace w @ es" "eos_absorbed es"
        "mset (participants this) = mset (participants t1) + mset (eos_handles es)"
        "0 < r1 \<longrightarrow> s1 \<noteq> 0"
        "participants this \<noteq> [] \<longrightarrow>
           (\<exists>r s es'. es = EvProbe (participants this ! 0) False r s # es')"
      by auto
    from FanIn_probe_loop_answers [OF L valid] obtain es2 where
      A: "trace w1 = trace w @ es2" "probes_answered T (length (trace w)) es2"
        "blocking \<and> participants t1 \<noteq> [] \<longrightarrow> r1 \<noteq> - 1"
        "r1 \<noteq> - 1 \<longrightarrow> es2 \<noteq> [] \<and> (\<exists>h. last es2 = EvProbe h False r1 s1)"
      by auto
    from E(1) A(1) have "es2 = es" by simp
    with E A show ?thesis by blast
  qed
  have c1: "FanIn_probe fuel T this size' blocking w = Some (res, size'', this', w') \<longrightarrow>
      (\<exists>es. trace w' = trace w @ es \<and> probes_answered T (length (trace w)) es
            \<and> eos_absorbed es
            \<and> mset (participants this) = mset (participants this') + mset (eos_handles es)
            \<and> (participants this \<noteq> [] \<longrightarrow>
                  (\<exists>r s es'. es = EvProbe (participants this ! 0) False r s # es')))
      \<and> (participants this' = [] \<longrightarrow> res = 8 \<and> size'' = 0)
      \<and> (participants this' \<noteq> [] \<longrightarrow> \<not> (0 < res \<and> size'' = 0))"
  proof
    assume "FanIn_probe fuel T this size' blocking w = Some (res, size'', this', w')"
    then obtain i1 r1 s1 where
      L: "FanIn_probe_loop fuel T blocking (0, - 1, size', this, w) = Some (i1, r1, s1, this', w')"
      and R: "participants this' = [] \<longrightarrow> res = 8 \<and> size'' = 0"
        "participants this' \<noteq> [] \<longrightarrow> res = r1 \<and> size'' = s1"
      by (auto simp: FanIn_probe_def split: option.splits if_splits)
    from part [OF L] R show "(\<exists>es. trace w' = trace w @ es
            \<and> probes_answered T (length (trace w)) es \<and> eos_absorbed es
            \<and> mset (participants this) = mset (participants this') + mset (eos_handles es)
            \<and> (participants this \<noteq> [] \<longrightarrow>
                  (\<exists>r s es'. es = EvProbe (participants this ! 0) False r s # es')))
      \<and> (participants this' = [] \<longrightarrow> res = 8 \<and> size'' = 0)
      \<and> (participants this' \<noteq> [] \<longrightarrow> \<not> (0 < res \<and> size'' = 0))"
      by auto
  qed
  have c2: "\<not> blocking \<and> length (participants this) < fuel \<longrightarrow>
        FanIn_probe fuel T this size' blocking w \<noteq> None"
  proof
    assume A: "\<not> blocking \<and> length (participants this) < fuel"
    from FanIn_probe_loop_nonblocking_total [OF valid, of fuel T "- 1" size' w] A
    show "FanIn_probe fuel T this size' blocking w \<noteq> None"
      by (auto simp: FanIn_probe_def split: option.splits)
  qed
  have c3: "(\<forall>t\<ge>length (trace w) + W. \<forall>h. pr_ret (t_probe T t h False) \<noteq> - 1)
        \<and> W + length (participants this) < fuel \<longrightarrow>
        FanIn_probe fuel T this size' blocking w \<noteq> None"
  proof
    assume A: "(\<forall>t\<ge>length (trace w) + W. \<forall>h. pr_ret (t_probe T t h False) \<noteq> - 1)
        \<and> W + length (participants this) < fuel"
    then have "FanIn_probe_loop fuel T blocking (0, - 1, size', this, w) \<noteq> None"
      using FanIn_probe_loop_returns [OF valid, of w W T fuel blocking "- 1" size'] by blast
    then show "FanIn_probe fuel T this size' blocking w \<noteq> None"
      by (auto simp: FanIn_probe_def split: option.splits)
  qed
  have c4: "(\<forall>t h. 0 < pr_ret (t_probe T t h False) \<and> pr_size (t_probe T t h False) = Some 0)
        \<and> (blocking \<or> length (participants this) \<le> 1)
        \<and> length (participants this) < fuel \<longrightarrow>
        (\<exists>t' v' es. FanIn_probe fuel T this size' blocking w = Some (8, 0, t', v')
            \<and> participants t' = [] \<and> trace v' = trace w @ es \<and> eos_absorbed es
            \<and> mset (eos_handles es) = mset (participants this))"
  proof
    assume A: "(\<forall>t h. 0 < pr_ret (t_probe T t h False) \<and> pr_size (t_probe T t h False) = Some 0)
        \<and> (blocking \<or> length (participants this) \<le> 1)
        \<and> length (participants this) < fuel"
    then have eos: "\<And>t h. 0 < pr_ret (t_probe T t h False)"
      "\<And>t h. pr_size (t_probe T t h False) = Some 0" by simp_all
    have q: "\<forall>t\<ge>length (trace w) + 0. \<forall>h. pr_ret (t_probe T t h False) \<noteq> - 1"
    proof (intro allI impI)
      fix t h
      from eos(1) [of t h] show "pr_ret (t_probe T t h False) \<noteq> - 1" by simp
    qed
    from A have "0 + length (participants this) < fuel" by simp
    from FanIn_probe_loop_returns [OF valid q this, of blocking "- 1" size']
    obtain i1 r1 s1 t1 w1 where
      L: "FanIn_probe_loop fuel T blocking (0, - 1, size', this, w) = Some (i1, r1, s1, t1, w1)"
      by (metis not_None_eq prod_cases5)
    from part [OF L] obtain es where
      E: "trace w1 = trace w @ es" "probes_answered T (length (trace w)) es" "eos_absorbed es"
        "mset (participants this) = mset (participants t1) + mset (eos_handles es)"
        "participants this \<noteq> [] \<longrightarrow>
           (\<exists>r s es'. es = EvProbe (participants this ! 0) False r s # es')"
        "blocking \<and> participants t1 \<noteq> [] \<longrightarrow> r1 \<noteq> - 1"
        "r1 \<noteq> - 1 \<longrightarrow> es \<noteq> [] \<and> (\<exists>h. last es = EvProbe h False r1 s1)"
        "0 < r1 \<longrightarrow> s1 \<noteq> 0"
      by blast
    have empty: "participants t1 = []"
    proof (rule ccontr)
      assume ne: "participants t1 \<noteq> []"
      from A consider (b) blocking | (n) "length (participants this) \<le> 1" by blast
      then show False
      proof cases
        case b
        with ne E(6) have r1: "r1 \<noteq> - 1" by simp
        with E(7) obtain h where l: "es \<noteq> []" "last es = EvProbe h False r1 s1" by blast
        from probes_answered_last [OF E(2) l] eos [of "length (trace w) + length es - 1" h]
        have "0 < r1" "s1 = 0" by simp_all
        with E(8) show False by simp
      next
        case n
        from ne E(4) have pne: "participants this \<noteq> []" by auto
        with E(5) obtain r s es' where es: "es = EvProbe (participants this ! 0) False r s # es'"
          by blast
        with E(2) eos [of "length (trace w)" "participants this ! 0"]
        have "0 < r" "s = 0" by simp_all
        with es have "eos_handles es = participants this ! 0 # eos_handles es'" by simp
        with E(4) have "size (mset (participants this))
              = size (mset (participants t1)) + Suc (length (eos_handles es'))"
          by simp
        with n ne show False by (cases "participants t1") simp_all
      qed
    qed
    with L have "FanIn_probe fuel T this size' blocking w = Some (8, 0, t1, w1)"
      by (simp add: FanIn_probe_def)
    moreover from E(4) empty have "mset (eos_handles es) = mset (participants this)" by simp
    ultimately show "\<exists>t' v' es. FanIn_probe fuel T this size' blocking w = Some (8, 0, t', v')
            \<and> participants t' = [] \<and> trace v' = trace w @ es \<and> eos_absorbed es
            \<and> mset (eos_handles es) = mset (participants this)"
      using empty E(1,3) by blast
  qed
  from c1 c2 c3 c4 show ?thesis by blast
qed

theorem FanIn_probe_absorbs_eos_witness:
  "(\<exists>t w es. FanIn_probe 3 ex_transport_eos ex_fanin 0 True (ex_world (False, 0) False)
             = Some (8, 5, t, w)
      \<and> participants t = [20]
      \<and> trace w = trace (ex_world (False, 0) False) @ es
      \<and> probes_answered ex_transport_eos (length (trace (ex_world (False, 0) False))) es
      \<and> eos_absorbed es
      \<and> mset (participants ex_fanin) = mset [20] + mset (eos_handles es)
      \<and> (\<exists>r s es'. es = EvProbe (participants ex_fanin ! 0) False r s # es'))
   \<and> (\<exists>t w es. FanIn_probe 3 ex_transport_eos (ex_fanin\<lparr>participants := [10]\<rparr>) 7 False
               (ex_world (False, 0) False)
             = Some (8, 0, t, w)
      \<and> participants t = []
      \<and> trace w = trace (ex_world (False, 0) False) @ es
      \<and> probes_answered ex_transport_eos (length (trace (ex_world (False, 0) False))) es
      \<and> eos_absorbed es
      \<and> mset [10] = mset (eos_handles es)
      \<and> (\<exists>r s es'. es = EvProbe 10 False r s # es'))
   \<and> participants ex_fanin \<noteq> []
   \<and> \<not> False \<and> length (participants ex_fanin) < 3
   \<and> FanIn_probe 3 ex_transport_eos ex_fanin 0 False (ex_world (False, 0) False) \<noteq> None
   \<and> 2 + length (participants ex_fanin) < 5
   \<and> FanIn_probe 5 ex_transport_late ex_fanin 0 True (ex_world (False, 0) False) \<noteq> None
   \<and> (\<forall>t h. 0 < pr_ret (t_probe ex_transport_closed t h False)
             \<and> pr_size (t_probe ex_transport_closed t h False) = Some 0)
   \<and> (\<exists>t' v' es. FanIn_probe 3 ex_transport_closed ex_fanin 0 True (ex_world (False, 0) False)
                    = Some (8, 0, t', v')
         \<and> participants t' = [] \<and> trace v' = trace (ex_world (False, 0) False) @ es
         \<and> eos_absorbed es \<and> mset (eos_handles es) = mset (participants ex_fanin))"
proof -
  let ?w = "ex_world (False, 0) False"
  from ex_fanin_eos_run obtain t w where
    r: "FanIn_probe 3 ex_transport_eos ex_fanin 0 True ?w = Some (8, 5, t, w)"
    and p: "participants t = [20]"
    by blast
  have ne: "participants ex_fanin \<noteq> []" by (simp add: ex_fanin_def)
  from FanIn_probe_absorbs_eos [where fuel = 3 and T = ex_transport_eos and this = ex_fanin
      and size' = 0 and blocking = True and w = ?w and res = 8 and size'' = 5 and this' = t
      and w' = w, THEN conjunct1] r p ne
  have "\<exists>es. trace w = trace ?w @ es
      \<and> probes_answered ex_transport_eos (length (trace ?w)) es
      \<and> eos_absorbed es
      \<and> mset (participants ex_fanin) = mset [20] + mset (eos_handles es)
      \<and> (\<exists>r s es'. es = EvProbe (participants ex_fanin ! 0) False r s # es')"
    by simp
  with r p have a: "\<exists>t w es. FanIn_probe 3 ex_transport_eos ex_fanin 0 True ?w
             = Some (8, 5, t, w)
      \<and> participants t = [20]
      \<and> trace w = trace ?w @ es
      \<and> probes_answered ex_transport_eos (length (trace ?w)) es
      \<and> eos_absorbed es
      \<and> mset (participants ex_fanin) = mset [20] + mset (eos_handles es)
      \<and> (\<exists>r s es'. es = EvProbe (participants ex_fanin ! 0) False r s # es')"
    by blast
  from ex_fanin_group_eos_run obtain t2 w2 where
    r2: "FanIn_probe 3 ex_transport_eos (ex_fanin\<lparr>participants := [10]\<rparr>) 7 False ?w
         = Some (8, 0, t2, w2)"
    and p2: "participants t2 = []"
    by blast
  from FanIn_probe_absorbs_eos [where fuel = 3 and T = ex_transport_eos
      and this = "ex_fanin\<lparr>participants := [10]\<rparr>" and size' = 7 and blocking = False
      and w = ?w and res = 8 and size'' = 0 and this' = t2 and w' = w2, THEN conjunct1] r2 p2
  have "\<exists>es. trace w2 = trace ?w @ es
      \<and> probes_answered ex_transport_eos (length (trace ?w)) es
      \<and> eos_absorbed es
      \<and> mset [10] = mset (eos_handles es)
      \<and> (\<exists>r s es'. es = EvProbe 10 False r s # es')"
    by simp
  with r2 p2 have a2: "\<exists>t w es. FanIn_probe 3 ex_transport_eos (ex_fanin\<lparr>participants := [10]\<rparr>)
               7 False ?w
             = Some (8, 0, t, w)
      \<and> participants t = []
      \<and> trace w = trace ?w @ es
      \<and> probes_answered ex_transport_eos (length (trace ?w)) es
      \<and> eos_absorbed es
      \<and> mset [10] = mset (eos_handles es)
      \<and> (\<exists>r s es'. es = EvProbe 10 False r s # es')"
    by blast
  have l: "length (participants ex_fanin) < 3" by (simp add: ex_fanin_def)
  from FanIn_probe_absorbs_eos [where fuel = 3 and T = ex_transport_eos and this = ex_fanin
      and size' = 0 and blocking = False and w = ?w,
      THEN conjunct2, THEN conjunct1] l
  have b: "FanIn_probe 3 ex_transport_eos ex_fanin 0 False ?w \<noteq> None"
    by simp
  have q: "\<forall>t\<ge>length (trace ?w) + 2. \<forall>h. pr_ret (t_probe ex_transport_late t h False) \<noteq> - 1"
    by (simp add: ex_world_def ex_transport_late_def ex_transport_def)
  have l2: "2 + length (participants ex_fanin) < 5" by (simp add: ex_fanin_def)
  from FanIn_probe_absorbs_eos [where fuel = 5 and T = ex_transport_late and this = ex_fanin
      and size' = 0 and blocking = True and w = ?w and W = 2,
      THEN conjunct2, THEN conjunct2, THEN conjunct1] q l2
  have c: "FanIn_probe 5 ex_transport_late ex_fanin 0 True ?w \<noteq> None"
    by blast
  have e: "\<forall>t h. 0 < pr_ret (t_probe ex_transport_closed t h False)
             \<and> pr_size (t_probe ex_transport_closed t h False) = Some 0"
    by (simp add: ex_transport_closed_def ex_transport_def)
  from FanIn_probe_absorbs_eos [where fuel = 3 and T = ex_transport_closed
      and this = ex_fanin and size' = 0 and blocking = True and w = ?w,
      THEN conjunct2, THEN conjunct2, THEN conjunct2] e l
  have d: "\<exists>t' v' es. FanIn_probe 3 ex_transport_closed ex_fanin 0 True ?w = Some (8, 0, t', v')
         \<and> participants t' = [] \<and> trace v' = trace ?w @ es
         \<and> eos_absorbed es \<and> mset (eos_handles es) = mset (participants ex_fanin)"
    by blast
  have nf: "\<not> False" by simp
  from a a2 ne nf l b l2 c e d show ?thesis by (intro conjI) assumption+
qed


subsection \<open>FanIn: where the scan starts and how it goes on\<close>





end
